theory Spec2Isabelle
  imports Complex_Main "HOL-Library.Word" "HOL-Library.Multiset"
begin

section \<open>Strings of the JavaScript runtime\<close>

text \<open>
  A JavaScript string is a sequence of UTF-16 code units; \<open>text[i]\<close> reads one code
  unit and \<open>text.length\<close> counts them. The parser and the normaliser of
  \<^verbatim>\<open>src/app/page.tsx\<close> only compare code units with constants, so a string is a
  list of 16-bit words.
\<close>

type_synonym jschar = "16 word"
type_synonym jsstring = "jschar list"

text \<open>An ASCII literal, written as an Isabelle string.\<close>

definition ascii :: "string \<Rightarrow> jsstring" where
  "ascii s = map of_char s"

text \<open>
  Modelled from the ECMAScript standard (the runtime's builtins are not part of the
  repository): the code units that \<open>String.prototype.trim\<close> strips and that the regular
  expression class \<open>\s\<close> matches. Both are the productions WhiteSpace and LineTerminator:
  TAB, LF, VT, FF, CR, SPACE, NBSP, U+1680, U+2000 to U+200A, U+2028, U+2029, U+202F,
  U+205F, U+3000 and U+FEFF.
\<close>

definition isWhiteSpace :: "jschar \<Rightarrow> bool" where
  "isWhiteSpace c =
     (c = 0x09 \<or> c = 0x0A \<or> c = 0x0B \<or> c = 0x0C \<or> c = 0x0D \<or> c = 0x20 \<or> c = 0xA0 \<or>
      c = 0x1680 \<or> (0x2000 \<le> c \<and> c \<le> 0x200A) \<or> c = 0x2028 \<or> c = 0x2029 \<or>
      c = 0x202F \<or> c = 0x205F \<or> c = 0x3000 \<or> c = 0xFEFF)"

text \<open>\<open>s.trim()\<close>: leading and trailing white space removed.\<close>

definition trim :: "jsstring \<Rightarrow> jsstring" where
  "trim s = rev (dropWhile isWhiteSpace (rev (dropWhile isWhiteSpace s)))"

text \<open>\<open>s.replace(/\s+/g, '')\<close>: every run of white space removed.\<close>

definition removeWhitespace :: "jsstring \<Rightarrow> jsstring" where
  "removeWhitespace s = filter (\<lambda>c. \<not> isWhiteSpace c) s"

section \<open>The CSV parser of \<^verbatim>\<open>src/app/page.tsx\<close>\<close>

record card =
  card_id :: nat
  question :: jsstring
  answer :: jsstring

text \<open>The four local variables of the scanning loop (lines 90 to 93).\<close>

record scan_state =
  rows :: "jsstring list list"
  currentRow :: "jsstring list"
  currentCell :: jsstring
  insideQuotes :: bool

definition initScan :: scan_state where
  "initScan = \<lparr>rows = [], currentRow = [], currentCell = [], insideQuotes = False\<rparr>"

text \<open>
  The loop of lines 95 to 120. The second argument is the input from index \<open>i\<close> on:
  its head is \<open>char = text[i]\<close>, and \<open>nextChar = text[i + 1]\<close> is the head of the rest,
  \<open>undefined\<close> (here \<open>None\<close>) at the end of the input. An \<open>i++\<close> in the body skips one
  more code unit. The code units are 0x22 (double quote), 0x2C (comma), 0x0D (CR) and
  0x0A (LF).
\<close>

fun scanChars :: "scan_state \<Rightarrow> jsstring \<Rightarrow> scan_state" where
  "scanChars st [] = st"
| "scanChars st (char # rest) =
     (let nextChar = (case rest of [] \<Rightarrow> None | n # _ \<Rightarrow> Some n) in
      if char = 0x22 then
        (if insideQuotes st \<and> nextChar = Some 0x22
         then scanChars (st\<lparr>currentCell := currentCell st @ [0x22]\<rparr>) (tl rest)
         else scanChars (st\<lparr>insideQuotes := \<not> insideQuotes st\<rparr>) rest)
      else if char = 0x2C \<and> \<not> insideQuotes st then
        scanChars (st\<lparr>currentRow := currentRow st @ [currentCell st], currentCell := []\<rparr>) rest
      else if (char = 0x0D \<or> char = 0x0A) \<and> \<not> insideQuotes st then
        (let rest' = (if char = 0x0D \<and> nextChar = Some 0x0A then tl rest else rest);
             row = currentRow st @ [currentCell st]
         in scanChars
              (st\<lparr>rows := (if length row > 1 \<or> (length row = 1 \<and> row ! 0 \<noteq> [])
                           then rows st @ [row] else rows st),
                  currentRow := [], currentCell := []\<rparr>)
              rest')
      else scanChars (st\<lparr>currentCell := currentCell st @ [char]\<rparr>) rest)"

text \<open>
  Lines 90 to 124: the scan from the initial state, then the flush of a row in progress
  (a string is truthy when it is not empty).
\<close>

definition csvRows :: "jsstring \<Rightarrow> jsstring list list" where
  "csvRows text =
     (let st = scanChars initScan text in
      if length (currentCell st) > 0 \<or> length (currentRow st) > 0
      then rows st @ [currentRow st @ [currentCell st]]
      else rows st)"

text \<open>
  \<open>row[k].trim()\<close>: reading past the end of an array gives \<open>undefined\<close>, and calling a
  method on \<open>undefined\<close> throws a TypeError.
\<close>

datatype js_error = TypeError

definition trimmedField :: "jsstring list \<Rightarrow> nat \<Rightarrow> js_error + jsstring" where
  "trimmedField row k = (if k < length row then Inr (trim (row ! k)) else Inl TypeError)"

text \<open>The loop of lines 127 to 136, from index \<open>i\<close> with the records pushed so far.\<close>

function buildCards :: "jsstring list list \<Rightarrow> nat \<Rightarrow> card list \<Rightarrow> js_error + card list" where
  "buildCards allRows i data =
     (if i < length allRows then
        (let row = allRows ! i in
         if length row \<ge> 2 then
           (case trimmedField row 0 of
              Inl e \<Rightarrow> Inl e
            | Inr q \<Rightarrow>
               (case trimmedField row 1 of
                  Inl e \<Rightarrow> Inl e
                | Inr a \<Rightarrow>
                    buildCards allRows (i + 1)
                      (data @ [\<lparr>card_id = i, question = q, answer = a\<rparr>])))
         else buildCards allRows (i + 1) data)
      else Inr data)"
  by pat_completeness auto
termination
  by (relation "measure (\<lambda>(allRows, i, data). length allRows - i)") auto

declare buildCards.simps [simp del]

definition parseCSV :: "jsstring \<Rightarrow> js_error + card list" where
  "parseCSV text = buildCards (csvRows text) 1 []"

section \<open>The CSV parser of \<^verbatim>\<open>src/unnamed/part_000\<close>\<close>

text \<open>
  The second file of the repository defines its own \<open>parseCSV\<close> (lines 23 to 84), inside
  the component \<open>Home\<close>. It is embedded on its own, from its own text; its \<open>Card\<close> type
  and its local variables have the shape of the first file's.
\<close>

fun Home_scanChars :: "scan_state \<Rightarrow> jsstring \<Rightarrow> scan_state" where
  "Home_scanChars st [] = st"
| "Home_scanChars st (char # rest) =
     (let nextChar = (case rest of [] \<Rightarrow> None | n # _ \<Rightarrow> Some n) in
      if char = 0x22 then
        (if insideQuotes st \<and> nextChar = Some 0x22
         then Home_scanChars (st\<lparr>currentCell := currentCell st @ [0x22]\<rparr>) (tl rest)
         else Home_scanChars (st\<lparr>insideQuotes := \<not> insideQuotes st\<rparr>) rest)
      else if char = 0x2C \<and> \<not> insideQuotes st then
        Home_scanChars
          (st\<lparr>currentRow := currentRow st @ [currentCell st], currentCell := []\<rparr>) rest
      else if (char = 0x0D \<or> char = 0x0A) \<and> \<not> insideQuotes st then
        (let rest' = (if char = 0x0D \<and> nextChar = Some 0x0A then tl rest else rest);
             row = currentRow st @ [currentCell st]
         in Home_scanChars
              (st\<lparr>rows := (if length row > 1 \<or> (length row = 1 \<and> row ! 0 \<noteq> [])
                           then rows st @ [row] else rows st),
                  currentRow := [], currentCell := []\<rparr>)
              rest')
      else Home_scanChars (st\<lparr>currentCell := currentCell st @ [char]\<rparr>) rest)"

definition Home_csvRows :: "jsstring \<Rightarrow> jsstring list list" where
  "Home_csvRows text =
     (let st = Home_scanChars initScan text in
      if length (currentCell st) > 0 \<or> length (currentRow st) > 0
      then rows st @ [currentRow st @ [currentCell st]]
      else rows st)"

function Home_buildCards ::
  "jsstring list list \<Rightarrow> nat \<Rightarrow> card list \<Rightarrow> js_error + card list" where
  "Home_buildCards allRows i data =
     (if i < length allRows then
        (let row = allRows ! i in
         if length row \<ge> 2 then
           (case trimmedField row 0 of
              Inl e \<Rightarrow> Inl e
            | Inr q \<Rightarrow>
               (case trimmedField row 1 of
                  Inl e \<Rightarrow> Inl e
                | Inr a \<Rightarrow>
                    Home_buildCards allRows (i + 1)
                      (data @ [\<lparr>card_id = i, question = q, answer = a\<rparr>])))
         else Home_buildCards allRows (i + 1) data)
      else Inr data)"
  by pat_completeness auto
termination
  by (relation "measure (\<lambda>(allRows, i, data). length allRows - i)") auto

declare Home_buildCards.simps [simp del]

definition Home_parseCSV :: "jsstring \<Rightarrow> js_error + card list" where
  "Home_parseCSV text = Home_buildCards (Home_csvRows text) 1 []"

text \<open>
  Doubling every double quote of a field, as a CSV writer does before it puts the field
  between quotes. Not part of the repository: it states what the parser reads back.
\<close>

definition escapeQuotes :: "jsstring \<Rightarrow> jsstring" where
  "escapeQuotes w = concat (map (\<lambda>c. if c = 0x22 then [0x22, 0x22] else [c]) w)"

section \<open>The answer normaliser of \<^verbatim>\<open>src/app/page.tsx\<close>\<close>

text \<open>
  \<open>normalizeString\<close> (lines 51 to 58) calls two builtins of the runtime whose tables are
  not part of the repository: \<open>String.prototype.normalize('NFKC')\<close> and
  \<open>String.prototype.toLowerCase\<close>. They are parameters of the model. The argument is
  optional: the guard \<open>if (!str) return ''\<close> answers both the empty string and an absent
  value (\<open>undefined\<close> or \<open>null\<close>, here \<open>None\<close>).
\<close>

definition normalizeString ::
  "(jsstring \<Rightarrow> jsstring) \<Rightarrow> (jsstring \<Rightarrow> jsstring) \<Rightarrow> jsstring option \<Rightarrow> jsstring" where
  "normalizeString nfkc toLowerCase str =
     (case str of
        None \<Rightarrow> []
      | Some s \<Rightarrow>
          if s = [] then []
          else removeWhitespace (toLowerCase (nfkc (trim s))))"

text \<open>The ASCII code units, and the lower-case mapping of the ASCII letters.\<close>

definition isAscii :: "jschar \<Rightarrow> bool" where
  "isAscii c = (c < 0x80)"

definition asciiLower :: "jschar \<Rightarrow> jschar" where
  "asciiLower c = (if 0x41 \<le> c \<and> c \<le> 0x5A then c + 0x20 else c)"

text \<open>
  Modelled from the Unicode standard (the runtime's tables are not part of the
  repository): the two builtins on a fragment, for closed examples. On ASCII both agree
  with the runtime (NFKC leaves ASCII unchanged, \<open>toLowerCase\<close> maps A to Z onto a to z).
  Beyond ASCII, \<open>nfkc_frag\<close> knows three entries of the Unicode character database: the
  half-width katakana U+FF88 and U+FF7A have the compatibility decompositions U+30CD and
  U+30B3, and U+00E1 is the canonical composition of the letter a (U+0061) with U+0301
  COMBINING ACUTE ACCENT. U+0020 followed by U+0301 does not compose (U+00B4 decomposes
  to that pair by a compatibility mapping only). On strings outside this fragment the
  two functions need not agree with the runtime; the general theorems below take the
  builtins as parameters instead.
\<close>

definition toLowerCase_frag :: "jsstring \<Rightarrow> jsstring" where
  "toLowerCase_frag s = map asciiLower s"

definition nfkc_char :: "jschar \<Rightarrow> jschar" where
  "nfkc_char c = (if c = 0xFF88 then 0x30CD else if c = 0xFF7A then 0x30B3 else c)"

fun nfkc_frag :: "jsstring \<Rightarrow> jsstring" where
  "nfkc_frag [] = []"
| "nfkc_frag [c] = [nfkc_char c]"
| "nfkc_frag (c # d # cs) =
     (if c = 0x61 \<and> d = 0x301 then 0xE1 # nfkc_frag cs
      else nfkc_char c # nfkc_frag (d # cs))"

section \<open>Shuffling (\<open>shuffleArray\<close>, lines 61 to 68)\<close>

text \<open>
  The value \<open>Math.random()\<close> returns is an IEEE 754 binary64 number that is not
  negative: a mantissa of at most 53 bits times a power of two whose exponent is at
  least -1074. The record stands for \<open>mantissa * 2 ^ exponent\<close>.
\<close>

record float64 =
  mantissa :: nat
  exponent :: int

definition valueOf :: "float64 \<Rightarrow> real" where
  "valueOf d = real (mantissa d) * 2 powr real_of_int (exponent d)"

text \<open>
  The runtime promises a value from 0 (included) to 1 (excluded): a binary64 number whose
  exponent is negative and whose mantissa is below \<open>2 ^ (- exponent)\<close>.
\<close>

definition isUnitDouble :: "float64 \<Rightarrow> bool" where
  "isUnitDouble d =
     (mantissa d < 2 ^ 53 \<and> - 1074 \<le> exponent d \<and> exponent d < 0
      \<and> mantissa d < 2 ^ nat (- exponent d))"

text \<open>The number of binary digits of a natural number.\<close>

fun bitLength :: "nat \<Rightarrow> nat" where
  "bitLength n = (if n = 0 then 0 else Suc (bitLength (n div 2)))"

declare bitLength.simps [simp del]

text \<open>
  \<open>M / 2 ^ s\<close> rounded to the nearest natural number, a tie to the even one: the rounding
  of IEEE 754 arithmetic (roundTiesToEven), which is the rounding of JavaScript.
\<close>

definition roundHalfEven :: "nat \<Rightarrow> nat \<Rightarrow> nat" where
  "roundHalfEven M s =
     (let q = M div 2 ^ s; rest = M mod 2 ^ s; half = 2 ^ (s - 1) in
      if rest < half then q
      else if half < rest then q + 1
      else if even q then q else q + 1)"

text \<open>
  The product \<open>r * n\<close> of line 64, for the binary64 number \<open>r\<close> and the array index plus
  one \<open>n\<close> (an integer below \<open>2 ^ 32\<close>, the bound of array lengths, so itself a binary64
  number). The exact product has the mantissa \<open>mantissa r * n\<close>; when that has more than 53
  binary digits the surplus digits are rounded away. For \<open>r\<close> below 1 the product is
  below \<open>n\<close>, so it cannot overflow, and a product that needs rounding is at least
  \<open>2 ^ (53 - 1074)\<close>, in the normal range, where the result has 53 digits.
\<close>

definition timesNat :: "float64 \<Rightarrow> nat \<Rightarrow> float64" where
  "timesNat r n =
     (let M = mantissa r * n; L = bitLength M in
      if L \<le> 53 then \<lparr>mantissa = M, exponent = exponent r\<rparr>
      else \<lparr>mantissa = roundHalfEven M (L - 53), exponent = exponent r + int (L - 53)\<rparr>)"

text \<open>\<open>Math.floor\<close> of a binary64 number that is not negative.\<close>

definition floorOf :: "float64 \<Rightarrow> nat" where
  "floorOf d =
     (if 0 \<le> exponent d then mantissa d * 2 ^ nat (exponent d)
      else mantissa d div 2 ^ nat (- exponent d))"

text \<open>
  \<open>Math.floor(Math.random() * (i + 1))\<close>, for the value \<open>r\<close> that \<open>Math.random()\<close>
  returned.
\<close>

definition randomIndex :: "float64 \<Rightarrow> nat \<Rightarrow> nat" where
  "randomIndex r i = floorOf (timesNat r (i + 1))"

text \<open>
  The loop \<open>for (let i = newArr.length - 1; i > 0; i--)\<close>. The random source is the
  sequence of the values \<open>Math.random()\<close> returns, \<open>random n\<close> for call number \<open>n\<close>. The
  destructuring assignment reads both elements before it writes them. For an empty
  array \<open>i\<close> starts at \<open>-1\<close> and the loop does not run; with the truncating subtraction
  of \<open>nat\<close> it starts at \<open>0\<close> and does not run either.
\<close>

function shuffleLoop :: "(nat \<Rightarrow> float64) \<Rightarrow> nat \<Rightarrow> nat \<Rightarrow> 'a list \<Rightarrow> 'a list" where
  "shuffleLoop random n i newArr =
     (if i > 0 then
        (let j = randomIndex (random n) i in
         shuffleLoop random (n + 1) (i - 1) (newArr[i := newArr ! j, j := newArr ! i]))
      else newArr)"
  by pat_completeness auto
termination
  by (relation "measure (\<lambda>(random, n, i, newArr). i)") auto

declare shuffleLoop.simps [simp del]

definition shuffleArray :: "(nat \<Rightarrow> float64) \<Rightarrow> 'a list \<Rightarrow> 'a list" where
  "shuffleArray random array = shuffleLoop random 0 (length array - 1) array"

section \<open>The application state and its handlers\<close>

datatype GameMode = FLASHCARD | INPUT
datatype OrderType = SEQUENTIAL | RANDOM
datatype Screen = MENU | SETUP | GAME | RESULT | WRONG_LIST
datatype SetupSource = SRC_ALL | SRC_WRONG

text \<open>
  \<open>limit\<close> is \<open>None\<close> for \<open>'ALL'\<close>. The two numbers are integers: \<open>slice\<close> truncates its
  arguments, and the setup screen offers the limits 10, 20 and 50.
\<close>

record GameSettings =
  mode :: GameMode
  order :: OrderType
  limit :: "int option"
  startIndex :: int

record GameResult =
  cardId :: nat
  isCorrect :: bool
  userAnswer :: "jsstring option"

text \<open>
  The state of \<open>FlashcardApp\<close> (lines 72 to 85), the \<open>settings\<close> of \<open>AppContent\<close>, the
  number of \<open>alert\<close> dialogs shown, and the two state variables of \<open>GameScreen\<close> that
  decide what it reports (\<open>index\<close> and \<open>results\<close>, lines 515 and 518). \<open>wrongHistory\<close> is
  the object \<open>Record<number, number>\<close>: a missing key reads as \<open>undefined\<close>.
\<close>

record app_state =
  allCards :: "card list"
  loading :: bool
  currentScreen :: Screen
  wrongHistory :: "nat \<rightharpoonup> nat"
  playQueue :: "card list"
  gameResults :: "GameResult list"
  setupSource :: SetupSource
  settings :: GameSettings
  alerts :: nat
  index :: nat
  results :: "GameResult list"

definition initial_state :: app_state where
  "initial_state =
     \<lparr>allCards = [], loading = True, currentScreen = MENU, wrongHistory = Map.empty,
      playQueue = [], gameResults = [], setupSource = SRC_ALL,
      settings = \<lparr>mode = FLASHCARD, order = SEQUENTIAL, limit = None, startIndex = 0\<rparr>,
      alerts = 0, index = 0, results = []\<rparr>"

text \<open>
  \<open>Array.prototype.slice(start, end)\<close> on integers (\<open>end\<close> absent is \<open>None\<close>): a negative
  argument counts from the end, and both are clamped to the array.
\<close>

definition js_slice :: "'a list \<Rightarrow> int \<Rightarrow> int option \<Rightarrow> 'a list" where
  "js_slice xs start fin =
     (let len = int (length xs);
          k = (if start < 0 then max (len + start) 0 else min start len);
          e = (case fin of None \<Rightarrow> len | Some e \<Rightarrow> e);
          final = (if e < 0 then max (len + e) 0 else min e len)
      in take (nat (final - k)) (drop (nat k) xs))"

text \<open>\<open>wrongHistory[id] || 0\<close>.\<close>

definition missCount :: "(nat \<rightharpoonup> nat) \<Rightarrow> nat \<Rightarrow> nat" where
  "missCount h k = (case h k of None \<Rightarrow> 0 | Some n \<Rightarrow> n)"

text \<open>\<open>handleStartGame\<close>, lines 239 to 241: the source of the deck.\<close>

definition sourceCards :: "app_state \<Rightarrow> card list" where
  "sourceCards st =
     (if setupSource st = SRC_ALL then allCards st
      else filter (\<lambda>c. missCount (wrongHistory st) (card_id c) > 0) (allCards st))"

text \<open>Lines 243 to 258: shuffle or start offset, then the limit.\<close>

definition selectDeck :: "(nat \<Rightarrow> float64) \<Rightarrow> GameSettings \<Rightarrow> app_state \<Rightarrow> card list" where
  "selectDeck random newSettings st =
     (let deck = sourceCards st;
          deck = (if order newSettings = RANDOM then shuffleArray random deck
                  else if startIndex newSettings > 0
                       then js_slice deck (startIndex newSettings) None
                       else deck);
          deck = (case limit newSettings of
                    None \<Rightarrow> deck
                  | Some n \<Rightarrow> js_slice deck 0 (Some n))
      in deck)"

text \<open>
  \<open>handleStartGame\<close>, lines 235 to 268. On an empty deck it shows the alert and returns;
  otherwise the screen becomes \<open>GAME\<close>, which mounts a fresh \<open>GameScreen\<close>.
\<close>

definition handleStartGame :: "(nat \<Rightarrow> float64) \<Rightarrow> GameSettings \<Rightarrow> app_state \<Rightarrow> app_state" where
  "handleStartGame random newSettings st =
     (let st1 = st\<lparr>settings := newSettings\<rparr>;
          deck = selectDeck random newSettings st
      in if length deck = 0 then st1\<lparr>alerts := alerts st + 1\<rparr>
         else st1\<lparr>playQueue := deck, gameResults := [], currentScreen := GAME,
                  index := 0, results := []\<rparr>)"

text \<open>The \<open>forEach\<close> of lines 275 to 279 over the copy of the history.\<close>

fun recordMisses :: "(nat \<rightharpoonup> nat) \<Rightarrow> GameResult list \<Rightarrow> (nat \<rightharpoonup> nat)" where
  "recordMisses newHistory [] = newHistory"
| "recordMisses newHistory (r # rs) =
     recordMisses
       (if \<not> isCorrect r
        then newHistory(cardId r \<mapsto> missCount newHistory (cardId r) + 1)
        else newHistory)
       rs"

text \<open>\<open>handleGameFinish\<close>, lines 270 to 283.\<close>

definition handleGameFinish :: "GameResult list \<Rightarrow> app_state \<Rightarrow> app_state" where
  "handleGameFinish res st =
     st\<lparr>gameResults := res,
        wrongHistory := recordMisses (wrongHistory st) res,
        currentScreen := RESULT\<rparr>"

text \<open>
  \<open>goNext\<close> of \<open>GameScreen\<close>, lines 541 to 561, on \<open>cards = playQueue\<close>. The screen
  renders \<open>cards[index]\<close>, so it is only there to be clicked when \<open>index\<close> is in range.
\<close>

definition goNext :: "bool \<Rightarrow> jsstring \<Rightarrow> app_state \<Rightarrow> app_state" where
  "goNext correct inputVal st =
     (let currentCard = playQueue st ! index st;
          newResult = \<lparr>cardId = card_id currentCard, isCorrect = correct,
                       userAnswer = (if mode (settings st) = INPUT then Some inputVal else None)\<rparr>;
          nextResults = results st @ [newResult]
      in if index st < length (playQueue st) - 1
         then st\<lparr>index := index st + 1, results := nextResults\<rparr>
         else handleGameFinish nextResults (st\<lparr>results := nextResults\<rparr>))"

text \<open>The fallback text \<open>SAMPLE_CSV\<close>, lines 36 to 46.\<close>

definition SAMPLE_CSV :: jsstring where
  "SAMPLE_CSV =
     ascii ''Question,Answer'' @ [0x0A] @
     ascii ''Apple,'' @ [0x308A, 0x3093, 0x3054, 0x0A] @
     ascii ''Computer,'' @ [0x30B3, 0x30F3, 0x30D4, 0x30E5, 0x30FC, 0x30BF, 0x0A] @
     ascii ''Japan,'' @ [0x65E5, 0x672C, 0x0A] @
     ascii ''Artificial Intelligence,'' @ [0x4EBA, 0x5DE5, 0x77E5, 0x80FD, 0x0A] @
     ascii ''Network,'' @ [0x30CD, 0x30C3, 0x30C8, 0x30EF, 0x30FC, 0x30AF, 0x0A] @
     ascii ''Database,'' @ [0x30C7, 0x30FC, 0x30BF, 0x30D9, 0x30FC, 0x30B9, 0x0A] @
     ascii ''Algorithm,'' @ [0x30A2, 0x30EB, 0x30B4, 0x30EA, 0x30BA, 0x30E0, 0x0A] @
     ascii ''Security,'' @ [0x30BB, 0x30AD, 0x30E5, 0x30EA, 0x30C6, 0x30A3, 0x0A] @
     ascii ''Programming,'' @ [0x30D7, 0x30ED, 0x30B0, 0x30E9, 0x30DF, 0x30F3, 0x30B0, 0x0A] @
     ascii ''Cloud,'' @ [0x30AF, 0x30E9, 0x30A6, 0x30C9]"

text \<open>
  What the user and the network can do. \<open>CsvLoaded text\<close> is the fetch of
  \<^verbatim>\<open>/way.csv\<close> answering with \<open>text\<close>, \<open>CsvFailed\<close> its failure; the other events are
  the buttons of the five screens and of the header. \<open>OnStart\<close> carries the settings of
  the setup screen and the values \<open>Math.random()\<close> will return during the call.
\<close>

datatype event =
    CsvLoaded jsstring
  | CsvFailed
  | HeaderClick
  | OnStartAll
  | OnStartWrong
  | OnShowWrongList
  | OnStart GameSettings "nat \<Rightarrow> float64"
  | SetupBack
  | GoNext bool jsstring
  | GameBack
  | OnRetryWrong
  | OnBackToMenu
  | WrongListBack
  | OnStartReview

text \<open>
  \<open>fetchCSV\<close>, lines 140 to 162: the effect runs once, while \<open>loading\<close> holds. An
  exception of \<open>parseCSV\<close> inside \<open>try\<close> would be caught and answered with the sample.
\<close>

definition loadSample :: "app_state \<Rightarrow> app_state" where
  "loadSample st =
     (case parseCSV SAMPLE_CSV of
        Inr data \<Rightarrow> st\<lparr>allCards := data, loading := False\<rparr>
      | Inl e \<Rightarrow> st)"

definition fetchCSV :: "jsstring option \<Rightarrow> app_state \<Rightarrow> app_state" where
  "fetchCSV response st =
     (case response of
        None \<Rightarrow> loadSample st
      | Some text \<Rightarrow>
          (case parseCSV text of
             Inr data \<Rightarrow> st\<lparr>allCards := data, loading := False\<rparr>
           | Inl e \<Rightarrow> loadSample st))"

text \<open>
  One event. While \<open>loading\<close> holds only the fetch can answer (line 169 renders nothing
  else); afterwards each button acts on the screen that shows it, and an event that the
  current screen does not offer leaves the state as it is. The review buttons are
  disabled or hidden while there is nothing to review (lines 367, 723 and 756).
\<close>

fun fire :: "event \<Rightarrow> app_state \<Rightarrow> app_state" where
  "fire (CsvLoaded text) st = (if loading st then fetchCSV (Some text) st else st)"
| "fire CsvFailed st = (if loading st then fetchCSV None st else st)"
| "fire HeaderClick st = (if loading st then st else st\<lparr>currentScreen := MENU\<rparr>)"
| "fire OnStartAll st =
     (if \<not> loading st \<and> currentScreen st = MENU
      then st\<lparr>setupSource := SRC_ALL, currentScreen := SETUP\<rparr> else st)"
| "fire OnStartWrong st =
     (if \<not> loading st \<and> currentScreen st = MENU \<and> dom (wrongHistory st) \<noteq> {}
      then st\<lparr>setupSource := SRC_WRONG, currentScreen := SETUP\<rparr> else st)"
| "fire OnShowWrongList st =
     (if \<not> loading st \<and> currentScreen st = MENU
      then st\<lparr>currentScreen := WRONG_LIST\<rparr> else st)"
| "fire (OnStart newSettings random) st =
     (if \<not> loading st \<and> currentScreen st = SETUP
      then handleStartGame random newSettings st else st)"
| "fire SetupBack st =
     (if \<not> loading st \<and> currentScreen st = SETUP then st\<lparr>currentScreen := MENU\<rparr> else st)"
| "fire (GoNext correct inputVal) st =
     (if \<not> loading st \<and> currentScreen st = GAME \<and> index st < length (playQueue st)
      then goNext correct inputVal st else st)"
| "fire GameBack st =
     (if \<not> loading st \<and> currentScreen st = GAME then st\<lparr>currentScreen := MENU\<rparr> else st)"
| "fire OnRetryWrong st =
     (if \<not> loading st \<and> currentScreen st = RESULT
         \<and> length (filter (\<lambda>r. \<not> isCorrect r) (gameResults st)) > 0
      then st\<lparr>setupSource := SRC_WRONG, currentScreen := SETUP\<rparr> else st)"
| "fire OnBackToMenu st =
     (if \<not> loading st \<and> currentScreen st = RESULT then st\<lparr>currentScreen := MENU\<rparr> else st)"
| "fire WrongListBack st =
     (if \<not> loading st \<and> currentScreen st = WRONG_LIST
      then st\<lparr>currentScreen := MENU\<rparr> else st)"
| "fire OnStartReview st =
     (if \<not> loading st \<and> currentScreen st = WRONG_LIST
         \<and> length (filter (\<lambda>c. missCount (wrongHistory st) (card_id c) > 0) (allCards st)) > 0
      then st\<lparr>setupSource := SRC_WRONG, currentScreen := SETUP\<rparr> else st)"

text \<open>The state after a sequence of events, from the state at mount.\<close>

fun run :: "event list \<Rightarrow> app_state \<Rightarrow> app_state" where
  "run [] st = st"
| "run (e # es) st = run es (fire e st)"

text \<open>
  An event is admissible when its random values are values of \<open>Math.random()\<close>, that
  is, binary64 numbers from 0 (included) to 1 (excluded).
\<close>

fun admissible :: "event \<Rightarrow> bool" where
  "admissible (OnStart newSettings random) = (\<forall>n. isUnitDouble (random n))"
| "admissible _ = True"

text \<open>
  The invariant of the reachable states: until the fetch has answered nothing has
  happened; the keys of the miss counts are identifiers of cards, and no stored count is
  zero; the play queue holds cards of the master list; and while the game screen shows,
  its index is in range and the results it has collected are about cards of the queue.
\<close>

definition app_inv :: "app_state \<Rightarrow> bool" where
  "app_inv s \<longleftrightarrow>
     (loading s \<longrightarrow> s = initial_state)
     \<and> dom (wrongHistory s) \<subseteq> card_id ` set (allCards s)
     \<and> 0 \<notin> ran (wrongHistory s)
     \<and> set (playQueue s) \<subseteq> set (allCards s)
     \<and> (currentScreen s = GAME \<longrightarrow>
          index s < length (playQueue s)
          \<and> cardId ` set (results s) \<subseteq> card_id ` set (playQueue s))"

section \<open>Properties of the CSV parser\<close>

lemma buildCards_eq:
  "buildCards rs i data =
     Inr (data @ map (\<lambda>k. \<lparr>card_id = k, question = trim (rs ! k ! 0), answer = trim (rs ! k ! 1)\<rparr>)
                    (filter (\<lambda>k. 2 \<le> length (rs ! k)) [i..<length rs]))"
proof (induction rs i data rule: buildCards.induct)
  case (1 allRows i data)
  show ?case
  proof (cases "i < length allRows")
    case False
    then show ?thesis by (simp add: buildCards.simps)
  next
    case True
    then have upt: "[i..<length allRows] = i # [Suc i..<length allRows]"
      by (simp add: upt_conv_Cons)
    show ?thesis
    proof (cases "2 \<le> length (allRows ! i)")
      case False
      with True 1(2)[OF True refl] show ?thesis
        by (subst buildCards.simps) (simp add: upt Let_def)
    next
      case two: True
      have f0: "trimmedField (allRows ! i) 0 = Inr (trim (allRows ! i ! 0))"
        and f1: "trimmedField (allRows ! i) 1 = Inr (trim (allRows ! i ! 1))"
        using two by (auto simp: trimmedField_def)
      from 1(1)[OF True refl two f0 f1] True two show ?thesis
        by (subst buildCards.simps) (simp add: upt f0 f1[unfolded One_nat_def] Let_def)
    qed
  qed
qed

lemma Home_scanChars_eq: "Home_scanChars st cs = scanChars st cs"
  by (induction st cs rule: scanChars.induct) (simp_all add: Let_def)

lemma Home_buildCards_eq: "Home_buildCards rs i data = buildCards rs i data"
proof (induction rs i data rule: buildCards.induct)
  case (1 allRows i data)
  then show ?case
    by (subst Home_buildCards.simps, subst buildCards.simps)
       (auto simp: Let_def split: sum.splits)
qed

lemma scanChars_step:
  "\<exists>st' rest'. scanChars st (c # rest) = scanChars st' rest' \<and> length rest' \<le> length rest \<and>
     (rows st' = rows st \<or> (\<exists>row. rows st' = rows st @ [row] \<and> row \<noteq> [] \<and> row \<noteq> [[]]))"
proof -
  let ?row = "currentRow st @ [currentCell st]"
  have row: "(length ?row > 1 \<or> (length ?row = 1 \<and> ?row ! 0 \<noteq> [])) \<Longrightarrow> ?row \<noteq> [] \<and> ?row \<noteq> [[]]"
    by (cases "currentRow st") auto
  consider (quote2) "c = 0x22" "insideQuotes st" "\<exists>rs. rest = 0x22 # rs"
    | (quote1) "c = 0x22" "\<not> (insideQuotes st \<and> (\<exists>rs. rest = 0x22 # rs))"
    | (comma) "c \<noteq> 0x22" "c = 0x2C" "\<not> insideQuotes st"
    | (newline) "c \<noteq> 0x22" "\<not> (c = 0x2C \<and> \<not> insideQuotes st)" "c = 0x0D \<or> c = 0x0A" "\<not> insideQuotes st"
    | (other) "c \<noteq> 0x22" "\<not> (c = 0x2C \<and> \<not> insideQuotes st)" "\<not> ((c = 0x0D \<or> c = 0x0A) \<and> \<not> insideQuotes st)"
    by blast
  then show ?thesis
  proof cases
    case quote2
    then obtain rs where "rest = 0x22 # rs" by blast
    with quote2 have "scanChars st (c # rest) = scanChars (st\<lparr>currentCell := currentCell st @ [0x22]\<rparr>) rs"
      by simp
    then show ?thesis using \<open>rest = 0x22 # rs\<close>
      by (intro exI[of _ "st\<lparr>currentCell := currentCell st @ [0x22]\<rparr>"] exI[of _ rs]) simp
  next
    case quote1
    then have "scanChars st (c # rest) = scanChars (st\<lparr>insideQuotes := \<not> insideQuotes st\<rparr>) rest"
      by (cases rest) auto
    then show ?thesis
      by (intro exI[of _ "st\<lparr>insideQuotes := \<not> insideQuotes st\<rparr>"] exI[of _ rest]) simp
  next
    case comma
    then have "scanChars st (c # rest) =
        scanChars (st\<lparr>currentRow := currentRow st @ [currentCell st], currentCell := []\<rparr>) rest"
      by simp
    then show ?thesis
      by (intro exI[of _ "st\<lparr>currentRow := currentRow st @ [currentCell st], currentCell := []\<rparr>"]
                exI[of _ rest]) simp
  next
    case newline
    let ?rest' = "if c = 0x0D \<and> (\<exists>rs. rest = 0x0A # rs) then tl rest else rest"
    let ?st' = "st\<lparr>rows := (if length ?row > 1 \<or> (length ?row = 1 \<and> ?row ! 0 \<noteq> [])
                           then rows st @ [?row] else rows st),
                  currentRow := [], currentCell := []\<rparr>"
    from newline have "scanChars st (c # rest) = scanChars ?st' ?rest'"
      by (cases rest) (auto simp: Let_def)
    moreover have "length ?rest' \<le> length rest" by simp
    moreover have "rows ?st' = rows st \<or> (\<exists>row. rows ?st' = rows st @ [row] \<and> row \<noteq> [] \<and> row \<noteq> [[]])"
      using row by (cases "length ?row > 1 \<or> (length ?row = 1 \<and> ?row ! 0 \<noteq> [])") auto
    ultimately show ?thesis by blast
  next
    case other
    then have "scanChars st (c # rest) = scanChars (st\<lparr>currentCell := currentCell st @ [c]\<rparr>) rest"
      by auto
    then show ?thesis
      by (intro exI[of _ "st\<lparr>currentCell := currentCell st @ [c]\<rparr>"] exI[of _ rest]) simp
  qed
qed

lemma scanChars_rows_inv:
  "[[]] \<notin> set (rows st) \<Longrightarrow> [] \<notin> set (rows st) \<Longrightarrow>
   [[]] \<notin> set (rows (scanChars st cs)) \<and> [] \<notin> set (rows (scanChars st cs))"
proof (induction cs arbitrary: st rule: length_induct)
  case (1 cs)
  show ?case
  proof (cases cs)
    case Nil
    with 1 show ?thesis by simp
  next
    case (Cons c rest)
    from scanChars_step[of st c rest] obtain st' rest' where
      s: "scanChars st (c # rest) = scanChars st' rest'" and
      l: "length rest' \<le> length rest" and
      r: "rows st' = rows st \<or> (\<exists>row. rows st' = rows st @ [row] \<and> row \<noteq> [] \<and> row \<noteq> [[]])"
      by blast
    from r 1(2,3) have "[[]] \<notin> set (rows st')" "[] \<notin> set (rows st')" by auto
    moreover from l Cons have "length rest' < length cs" by simp
    ultimately show ?thesis using 1(1) s Cons by metis
  qed
qed

lemma csvRows_no_blank: "[[]] \<notin> set (csvRows text) \<and> [] \<notin> set (csvRows text)"
proof -
  have "[[]] \<notin> set (rows (scanChars initScan text)) \<and> [] \<notin> set (rows (scanChars initScan text))"
    by (rule scanChars_rows_inv) (simp_all add: initScan_def)
  then show ?thesis
    by (auto simp: csvRows_def Let_def)
qed

lemma scanChars_quoted:
  "insideQuotes st \<Longrightarrow>
   scanChars st (escapeQuotes w @ [0x22]) = st\<lparr>currentCell := currentCell st @ w, insideQuotes := False\<rparr>"
proof (induction w arbitrary: st)
  case Nil
  then show ?case by (simp add: escapeQuotes_def)
next
  case (Cons c w)
  have esc: "escapeQuotes (c # w) = (if c = 0x22 then [0x22, 0x22] else [c]) @ escapeQuotes w"
    by (simp add: escapeQuotes_def)
  obtain r rs where rest: "escapeQuotes w @ [0x22] = r # rs"
    by (cases "escapeQuotes w @ [0x22]") auto
  show ?case
  proof (cases "c = 0x22")
    case True
    have "scanChars st (escapeQuotes (c # w) @ [0x22]) =
          scanChars (st\<lparr>currentCell := currentCell st @ [0x22]\<rparr>) (escapeQuotes w @ [0x22])"
      unfolding esc using Cons.prems True by simp
    also have "\<dots> = st\<lparr>currentCell := currentCell st @ [0x22]\<rparr>\<lparr>currentCell := currentCell (st\<lparr>currentCell := currentCell st @ [0x22]\<rparr>) @ w, insideQuotes := False\<rparr>"
      by (rule Cons.IH) (simp add: Cons.prems)
    finally show ?thesis using True by simp
  next
    case False
    have "scanChars st (escapeQuotes (c # w) @ [0x22]) =
          scanChars (st\<lparr>currentCell := currentCell st @ [c]\<rparr>) (escapeQuotes w @ [0x22])"
      unfolding esc using Cons.prems False rest by (simp add: Let_def)
    also have "\<dots> = st\<lparr>currentCell := currentCell st @ [c]\<rparr>\<lparr>currentCell := currentCell (st\<lparr>currentCell := currentCell st @ [c]\<rparr>) @ w, insideQuotes := False\<rparr>"
      by (rule Cons.IH) (simp add: Cons.prems)
    finally show ?thesis by simp
  qed
qed

lemma csvRows_quoted: "csvRows (0x22 # escapeQuotes w @ [0x22]) = (if w = [] then [] else [[w]])"
proof -
  have "scanChars initScan (0x22 # escapeQuotes w @ [0x22]) =
        scanChars (initScan\<lparr>insideQuotes := True\<rparr>) (escapeQuotes w @ [0x22])"
    by (simp add: initScan_def Let_def)
  also have "\<dots> = initScan\<lparr>insideQuotes := True\<rparr>\<lparr>currentCell := currentCell (initScan\<lparr>insideQuotes := True\<rparr>) @ w, insideQuotes := False\<rparr>"
    by (rule scanChars_quoted) simp
  finally show ?thesis
    by (simp add: csvRows_def initScan_def)
qed

text \<open>
  Claim C3. Inside a quoted field a comma, a carriage return and a line feed are appended
  to the current field, and a double quote followed by a double quote appends one double
  quote and consumes both. A field written between quotes with its quotes doubled is read
  back as it was, whatever it contains; the two examples of the specification are
  instances.
\<close>

theorem quoted_field_literal:
  "scanChars (st\<lparr>insideQuotes := True\<rparr>) (0x2C # rest) =
     scanChars (st\<lparr>insideQuotes := True, currentCell := currentCell st @ [0x2C]\<rparr>) rest
   \<and> scanChars (st\<lparr>insideQuotes := True\<rparr>) (0x0D # rest) =
     scanChars (st\<lparr>insideQuotes := True, currentCell := currentCell st @ [0x0D]\<rparr>) rest
   \<and> scanChars (st\<lparr>insideQuotes := True\<rparr>) (0x0A # rest) =
     scanChars (st\<lparr>insideQuotes := True, currentCell := currentCell st @ [0x0A]\<rparr>) rest
   \<and> scanChars (st\<lparr>insideQuotes := True\<rparr>) (0x22 # 0x22 # rest) =
     scanChars (st\<lparr>insideQuotes := True, currentCell := currentCell st @ [0x22]\<rparr>) rest
   \<and> csvRows (0x22 # escapeQuotes w @ [0x22]) = (if w = [] then [] else [[w]])
   \<and> csvRows (ascii ''\"a,b'' @ [0x0A] @ ascii ''c\"'') = [[ascii ''a,b'' @ [0x0A] @ ascii ''c'']]
   \<and> csvRows (ascii ''\"he said \"\"hi\"\"\"'') = [[ascii ''he said \"hi\"'']]"
proof -
  have a: "scanChars (st\<lparr>insideQuotes := True\<rparr>) (0x2C # rest) =
     scanChars (st\<lparr>insideQuotes := True, currentCell := currentCell st @ [0x2C]\<rparr>) rest"
    by simp
  have b: "scanChars (st\<lparr>insideQuotes := True\<rparr>) (0x0D # rest) =
     scanChars (st\<lparr>insideQuotes := True, currentCell := currentCell st @ [0x0D]\<rparr>) rest"
    by simp
  have c: "scanChars (st\<lparr>insideQuotes := True\<rparr>) (0x0A # rest) =
     scanChars (st\<lparr>insideQuotes := True, currentCell := currentCell st @ [0x0A]\<rparr>) rest"
    by simp
  have d: "scanChars (st\<lparr>insideQuotes := True\<rparr>) (0x22 # 0x22 # rest) =
     scanChars (st\<lparr>insideQuotes := True, currentCell := currentCell st @ [0x22]\<rparr>) rest"
    by simp
  have e: "csvRows (ascii ''\"a,b'' @ [0x0A] @ ascii ''c\"'') = [[ascii ''a,b'' @ [0x0A] @ ascii ''c'']]"
    by (simp add: csvRows_def initScan_def ascii_def)
  have f: "csvRows (ascii ''\"he said \"\"hi\"\"\"'') = [[ascii ''he said \"hi\"'']]"
    by (simp add: csvRows_def initScan_def ascii_def)
  from a b c d e f csvRows_quoted show ?thesis by blast
qed

lemma parseCSV_eq:
  "parseCSV text =
     Inr (map (\<lambda>k. \<lparr>card_id = k, question = trim (csvRows text ! k ! 0),
                     answer = trim (csvRows text ! k ! 1)\<rparr>)
              (filter (\<lambda>k. 2 \<le> length (csvRows text ! k)) [1..<length (csvRows text)]))"
  by (simp add: parseCSV_def buildCards_eq)

text \<open>
  Claim C1, as stated, fails at its own example: the record of the first data row does not
  carry the identifier 2.
\<close>

theorem parseCSV_example_id_counterexample:
  "parseCSV (ascii ''Q,A'' @ [0x0A] @ ascii ''Apple,'' @ [0x308A, 0x3093, 0x3054, 0x0A]) \<noteq>
     Inr [\<lparr>card_id = 2, question = ascii ''Apple'', answer = [0x308A, 0x3093, 0x3054]\<rparr>]"
  by (simp add: parseCSV_def csvRows_def initScan_def ascii_def buildCards.simps
      trimmedField_def trim_def isWhiteSpace_def)

text \<open>
  Claim C1, amended. The records are the images of a strictly increasing sequence of row
  indices of the retained rows (row order is preserved), and the identifier of a record is
  the index of its row counting the header as row 0: the first data row receives 1. The
  example text yields exactly one record, with identifier 1.
\<close>

theorem parseCSV_order_and_row_index:
  "(\<exists>ks. sorted_wrt (<) ks \<and> set ks \<subseteq> {1..<length (csvRows text)} \<and>
      parseCSV text =
        Inr (map (\<lambda>k. \<lparr>card_id = k, question = trim (csvRows text ! k ! 0),
                        answer = trim (csvRows text ! k ! 1)\<rparr>) ks))
   \<and> csvRows (ascii ''Q,A'' @ [0x0A] @ ascii ''Apple,'' @ [0x308A, 0x3093, 0x3054, 0x0A]) =
       [[ascii ''Q'', ascii ''A''], [ascii ''Apple'', [0x308A, 0x3093, 0x3054]]]
   \<and> parseCSV (ascii ''Q,A'' @ [0x0A] @ ascii ''Apple,'' @ [0x308A, 0x3093, 0x3054, 0x0A]) =
       Inr [\<lparr>card_id = 1, question = ascii ''Apple'', answer = [0x308A, 0x3093, 0x3054]\<rparr>]"
proof -
  let ?ks = "filter (\<lambda>k. 2 \<le> length (csvRows text ! k)) [1..<length (csvRows text)]"
  have "sorted_wrt (<) ?ks"
    by (rule sorted_wrt_filter) simp
  moreover have "set ?ks \<subseteq> {1..<length (csvRows text)}" by auto
  ultimately have general: "\<exists>ks. sorted_wrt (<) ks \<and> set ks \<subseteq> {1..<length (csvRows text)} \<and>
      parseCSV text =
        Inr (map (\<lambda>k. \<lparr>card_id = k, question = trim (csvRows text ! k ! 0),
                        answer = trim (csvRows text ! k ! 1)\<rparr>) ks)"
    using parseCSV_eq[of "text"] by blast
  have r: "csvRows (ascii ''Q,A'' @ [0x0A] @ ascii ''Apple,'' @ [0x308A, 0x3093, 0x3054, 0x0A]) =
       [[ascii ''Q'', ascii ''A''], [ascii ''Apple'', [0x308A, 0x3093, 0x3054]]]"
    by (simp add: csvRows_def initScan_def ascii_def)
  have p: "parseCSV (ascii ''Q,A'' @ [0x0A] @ ascii ''Apple,'' @ [0x308A, 0x3093, 0x3054, 0x0A]) =
       Inr [\<lparr>card_id = 1, question = ascii ''Apple'', answer = [0x308A, 0x3093, 0x3054]\<rparr>]"
    by (simp add: parseCSV_def csvRows_def initScan_def ascii_def buildCards.simps
        trimmedField_def trim_def isWhiteSpace_def)
  from general r p show ?thesis by blast
qed

text \<open>
  Claim C2. With the header row excluded, the identifier of a record is the 1-based offset
  of its row among the remaining rows, and the identifiers of one result are pairwise
  distinct.
\<close>

theorem parseCSV_ids_header_excluded:
  "\<exists>cards. parseCSV text = Inr cards
     \<and> cards = map (\<lambda>k. \<lparr>card_id = k, question = trim (tl (csvRows text) ! (k - 1) ! 0),
                          answer = trim (tl (csvRows text) ! (k - 1) ! 1)\<rparr>)
                   (filter (\<lambda>k. 2 \<le> length (tl (csvRows text) ! (k - 1)))
                           [1..<Suc (length (tl (csvRows text)))])
     \<and> map card_id cards =
         filter (\<lambda>k. 2 \<le> length (tl (csvRows text) ! (k - 1))) [1..<Suc (length (tl (csvRows text)))]
     \<and> distinct (map card_id cards)"
proof -
  let ?rs = "csvRows text"
  have upt: "[1..<Suc (length (tl ?rs))] = [1..<length ?rs]"
    by (cases ?rs) simp_all
  have nth: "tl ?rs ! (k - Suc 0) = ?rs ! k" if "Suc 0 \<le> k" "k < length ?rs" for k
    using that by (cases ?rs; cases k) simp_all
  have flt: "filter (\<lambda>k. 2 \<le> length (tl ?rs ! (k - 1))) [1..<length ?rs] =
             filter (\<lambda>k. 2 \<le> length (?rs ! k)) [1..<length ?rs]"
    by (rule filter_cong[OF refl]) (simp add: nth)
  have mp: "map (\<lambda>k. \<lparr>card_id = k, question = trim (tl ?rs ! (k - 1) ! 0),
                          answer = trim (tl ?rs ! (k - 1) ! 1)\<rparr>)
                (filter (\<lambda>k. 2 \<le> length (?rs ! k)) [1..<length ?rs]) =
            map (\<lambda>k. \<lparr>card_id = k, question = trim (?rs ! k ! 0), answer = trim (?rs ! k ! 1)\<rparr>)
                (filter (\<lambda>k. 2 \<le> length (?rs ! k)) [1..<length ?rs])"
    by (rule map_cong[OF refl]) (simp add: nth)
  show ?thesis
    unfolding upt flt mp
    by (rule exI[of _ "map (\<lambda>k. \<lparr>card_id = k, question = trim (?rs ! k ! 0), answer = trim (?rs ! k ! 1)\<rparr>)
                (filter (\<lambda>k. 2 \<le> length (?rs ! k)) [1..<length ?rs])"])
       (simp add: parseCSV_eq o_def)
qed

text \<open>
  Claim C4. The parser returns a list for every input and never throws: the result holds,
  in row order, one record for each retained row after the header that has at least two
  fields, made of the trimmed first and second field; shorter rows give nothing. No
  retained row is a single empty field, and a line break met at the start of a row leaves
  the scan where it was.
\<close>

theorem parseCSV_total_rows:
  "parseCSV text =
     Inr (map (\<lambda>k. \<lparr>card_id = k, question = trim (csvRows text ! k ! 0),
                     answer = trim (csvRows text ! k ! 1)\<rparr>)
              (filter (\<lambda>k. 2 \<le> length (csvRows text ! k)) [1..<length (csvRows text)]))
   \<and> [[]] \<notin> set (csvRows text) \<and> [] \<notin> set (csvRows text)
   \<and> scanChars (st\<lparr>currentRow := [], currentCell := [], insideQuotes := False\<rparr>) (0x0A # rest) =
       scanChars (st\<lparr>currentRow := [], currentCell := [], insideQuotes := False\<rparr>) rest
   \<and> scanChars (st\<lparr>currentRow := [], currentCell := [], insideQuotes := False\<rparr>) (0x0D # 0x0A # rest) =
       scanChars (st\<lparr>currentRow := [], currentCell := [], insideQuotes := False\<rparr>) rest"
proof -
  have a: "scanChars (st\<lparr>currentRow := [], currentCell := [], insideQuotes := False\<rparr>) (0x0A # rest) =
       scanChars (st\<lparr>currentRow := [], currentCell := [], insideQuotes := False\<rparr>) rest"
    by (cases st) (simp add: Let_def)
  have b: "scanChars (st\<lparr>currentRow := [], currentCell := [], insideQuotes := False\<rparr>) (0x0D # 0x0A # rest) =
       scanChars (st\<lparr>currentRow := [], currentCell := [], insideQuotes := False\<rparr>) rest"
    by (cases st) (simp add: Let_def)
  from a b parseCSV_eq[of "text"] csvRows_no_blank[of "text"] show ?thesis by blast
qed

text \<open>
  Claim C10. The parser of \<^verbatim>\<open>src/unnamed/part_000\<close> and the parser of
  \<^verbatim>\<open>src/app/page.tsx\<close> return the same result on every input.
\<close>

theorem Home_parseCSV_same: "Home_parseCSV text = parseCSV text"
  by (simp add: Home_parseCSV_def parseCSV_def Home_csvRows_def csvRows_def
      Home_scanChars_eq Home_buildCards_eq)

section \<open>Properties of the normaliser\<close>

lemma nfkc_frag_ascii: "list_all isAscii s \<Longrightarrow> nfkc_frag s = s"
  by (induction s rule: nfkc_frag.induct) (auto simp: isAscii_def nfkc_char_def)

text \<open>
  Claim C5. Given what the Unicode standard says of the two builtins on the strings
  concerned (NFKC leaves ASCII strings unchanged, \<open>toLowerCase\<close> maps the ASCII capitals
  onto the small letters, and NFKC maps the half-width katakana U+FF88 U+FF7A onto the
  full-width U+30CD U+30B3, which it leaves unchanged), \<open>normalizeString\<close> is the pipeline
  trim, NFKC, lower case, white space removal on every string, an empty or absent
  argument gives the empty string, and the two pairs of the specification normalise to
  the same string.
\<close>

theorem normalizeString_pipeline:
  assumes nfkc_ascii: "\<And>s. list_all isAscii s \<Longrightarrow> nfkc s = s"
      and lower_ascii: "\<And>s. list_all isAscii s \<Longrightarrow> toLowerCase s = map asciiLower s"
      and nfkc_kana: "nfkc [0xFF88, 0xFF7A] = [0x30CD, 0x30B3]"
      and nfkc_kana_full: "nfkc [0x30CD, 0x30B3] = [0x30CD, 0x30B3]"
  shows "normalizeString nfkc toLowerCase (Some s) = removeWhitespace (toLowerCase (nfkc (trim s)))
       \<and> normalizeString nfkc toLowerCase None = []
       \<and> normalizeString nfkc toLowerCase (Some []) = []
       \<and> normalizeString nfkc toLowerCase (Some (ascii ''  Tokyo '')) =
           normalizeString nfkc toLowerCase (Some (ascii ''tokyo''))
       \<and> normalizeString nfkc toLowerCase (Some [0xFF88, 0xFF7A]) =
           normalizeString nfkc toLowerCase (Some [0x30CD, 0x30B3])"
proof -
  have e1: "nfkc [] = []" using nfkc_ascii[of "[]"] by simp
  have e2: "toLowerCase [] = []" using lower_ascii[of "[]"] by simp
  have pipe: "normalizeString nfkc toLowerCase (Some s) =
      removeWhitespace (toLowerCase (nfkc (trim s)))"
    by (cases "s = []") (simp_all add: normalizeString_def trim_def e1 e2 removeWhitespace_def)
  have t1: "trim (ascii ''  Tokyo '') = ascii ''Tokyo''"
    by (simp add: trim_def ascii_def isWhiteSpace_def)
  have t2: "trim (ascii ''tokyo'') = ascii ''tokyo''"
    by (simp add: trim_def ascii_def isWhiteSpace_def)
  have a1: "list_all isAscii (ascii ''Tokyo'')" by (simp add: ascii_def isAscii_def)
  have a2: "list_all isAscii (ascii ''tokyo'')" by (simp add: ascii_def isAscii_def)
  have l1: "toLowerCase (nfkc (ascii ''Tokyo'')) = ascii ''tokyo''"
    using nfkc_ascii[OF a1] lower_ascii[OF a1] by (simp add: ascii_def asciiLower_def)
  have l2: "toLowerCase (nfkc (ascii ''tokyo'')) = ascii ''tokyo''"
    using nfkc_ascii[OF a2] lower_ascii[OF a2] by (simp add: ascii_def asciiLower_def)
  have tokyo: "normalizeString nfkc toLowerCase (Some (ascii ''  Tokyo '')) =
           normalizeString nfkc toLowerCase (Some (ascii ''tokyo''))"
    by (simp add: normalizeString_def t1 t2 l1 l2) (simp add: ascii_def)
  have k1: "trim [0xFF88, 0xFF7A] = [0xFF88, 0xFF7A]"
    by (simp add: trim_def isWhiteSpace_def)
  have k2: "trim [0x30CD, 0x30B3] = [0x30CD, 0x30B3]"
    by (simp add: trim_def isWhiteSpace_def)
  have kana: "normalizeString nfkc toLowerCase (Some [0xFF88, 0xFF7A]) =
           normalizeString nfkc toLowerCase (Some [0x30CD, 0x30B3])"
    by (simp add: normalizeString_def k1 k2 nfkc_kana nfkc_kana_full)
  have n: "normalizeString nfkc toLowerCase None = []"
    and m: "normalizeString nfkc toLowerCase (Some []) = []"
    by (simp_all add: normalizeString_def)
  from pipe n m tokyo kana show ?thesis by blast
qed

text \<open>
  The hypotheses of C5 hold of the fragment model of the builtins, and the pipeline then
  gives the expected strings.
\<close>

theorem normalizeString_pipeline_witness:
  "normalizeString nfkc_frag toLowerCase_frag (Some (ascii '' New York '')) = ascii ''newyork''
   \<and> removeWhitespace (toLowerCase_frag (nfkc_frag (trim (ascii '' New York '')))) = ascii ''newyork''
   \<and> normalizeString nfkc_frag toLowerCase_frag (Some (ascii ''  Tokyo '')) =
       normalizeString nfkc_frag toLowerCase_frag (Some (ascii ''tokyo''))
   \<and> normalizeString nfkc_frag toLowerCase_frag (Some [0xFF88, 0xFF7A]) =
       normalizeString nfkc_frag toLowerCase_frag (Some [0x30CD, 0x30B3])
   \<and> normalizeString nfkc_frag toLowerCase_frag (Some [0xFF88, 0xFF7A]) = [0x30CD, 0x30B3]"
proof -
  have h1: "\<And>s. list_all isAscii s \<Longrightarrow> nfkc_frag s = s" by (rule nfkc_frag_ascii)
  have h2: "\<And>s. list_all isAscii s \<Longrightarrow> toLowerCase_frag s = map asciiLower s"
    by (simp add: toLowerCase_frag_def)
  have h3: "nfkc_frag [0xFF88, 0xFF7A] = [0x30CD, 0x30B3]" by (simp add: nfkc_char_def)
  have h4: "nfkc_frag [0x30CD, 0x30B3] = [0x30CD, 0x30B3]" by (simp add: nfkc_char_def)
  have v: "removeWhitespace (toLowerCase_frag (nfkc_frag (trim (ascii '' New York '')))) = ascii ''newyork''"
    by (simp add: trim_def ascii_def isWhiteSpace_def nfkc_char_def toLowerCase_frag_def
        asciiLower_def removeWhitespace_def)
  have w: "removeWhitespace (toLowerCase_frag (nfkc_frag (trim [0xFF88, 0xFF7A]))) = [0x30CD, 0x30B3]"
    by (simp add: trim_def isWhiteSpace_def nfkc_char_def toLowerCase_frag_def
        asciiLower_def removeWhitespace_def)
  from normalizeString_pipeline[of nfkc_frag toLowerCase_frag "ascii '' New York ''", OF h1 h2 h3 h4]
       normalizeString_pipeline[of nfkc_frag toLowerCase_frag "[0xFF88, 0xFF7A]", OF h1 h2 h3 h4]
       v w
  show ?thesis by simp
qed

text \<open>
  Claim C6, as stated, fails: the letter a, a space and U+0301 COMBINING ACUTE ACCENT
  normalise to the letter followed by the accent (NFKC does not compose across the
  space, and the space is removed last); normalising that again composes the two into
  U+00E1.
\<close>

theorem normalizeString_not_idempotent_counterexample:
  "normalizeString nfkc_frag toLowerCase_frag (Some [0x61, 0x20, 0x301]) = [0x61, 0x301]
   \<and> normalizeString nfkc_frag toLowerCase_frag
        (Some (normalizeString nfkc_frag toLowerCase_frag (Some [0x61, 0x20, 0x301]))) = [0xE1]
   \<and> normalizeString nfkc_frag toLowerCase_frag
        (Some (normalizeString nfkc_frag toLowerCase_frag (Some [0x61, 0x20, 0x301]))) \<noteq>
       normalizeString nfkc_frag toLowerCase_frag (Some [0x61, 0x20, 0x301])"
  by (simp add: normalizeString_def trim_def isWhiteSpace_def nfkc_char_def toLowerCase_frag_def
      asciiLower_def removeWhitespace_def)

lemma not_isWhiteSpace_letter:
  assumes "65 \<le> unat c" "unat c \<le> 122"
  shows "\<not> isWhiteSpace c"
proof
  assume "isWhiteSpace c"
  then have "unat c = 9 \<or> unat c = 10 \<or> unat c = 11 \<or> unat c = 12 \<or> unat c = 13
      \<or> unat c = 32 \<or> unat c = 160 \<or> unat c = 5760 \<or> 8192 \<le> unat c
      \<or> unat c = 8232 \<or> unat c = 8233 \<or> unat c = 8239 \<or> unat c = 8287
      \<or> unat c = 12288 \<or> unat c = 65279"
    unfolding isWhiteSpace_def by (auto simp: word_le_nat_alt)
  with assms show False by arith
qed

lemma asciiLower_whitespace: "isWhiteSpace (asciiLower c) = isWhiteSpace c"
proof (cases "0x41 \<le> c \<and> c \<le> 0x5A")
  case False
  then show ?thesis by (auto simp: asciiLower_def)
next
  case True
  then have u: "65 \<le> unat c" "unat c \<le> 90"
    by (simp_all add: word_le_nat_alt)
  then have v: "unat (c + 0x20) = unat c + 32"
    by (simp add: unat_add_lem[THEN iffD1])
  have a: "\<not> isWhiteSpace c"
    using u by (intro not_isWhiteSpace_letter) simp_all
  have b: "\<not> isWhiteSpace (c + 0x20)"
    using u v by (intro not_isWhiteSpace_letter) simp_all
  from True a b show ?thesis by (simp add: asciiLower_def)
qed

lemma asciiLower_idem: "asciiLower (asciiLower c) = asciiLower c"
proof (cases "0x41 \<le> c \<and> c \<le> 0x5A")
  case False
  then show ?thesis by (auto simp: asciiLower_def)
next
  case True
  then have u: "65 \<le> unat c" "unat c \<le> 90"
    by (simp_all add: word_le_nat_alt)
  then have v: "unat (c + 0x20) = unat c + 32"
    by (simp add: unat_add_lem[THEN iffD1])
  have "\<not> (c + 0x20 \<le> 0x5A)"
    using u v by (simp add: word_le_nat_alt)
  with True show ?thesis by (simp add: asciiLower_def)
qed

lemma asciiLower_ascii:
  assumes "isAscii c"
  shows "isAscii (asciiLower c)"
proof (cases "0x41 \<le> c \<and> c \<le> 0x5A")
  case False
  with assms show ?thesis by (auto simp: asciiLower_def)
next
  case True
  then have u: "65 \<le> unat c" "unat c \<le> 90"
    by (simp_all add: word_le_nat_alt)
  then have v: "unat (c + 0x20) = unat c + 32"
    by (simp add: unat_add_lem[THEN iffD1])
  have "c + 0x20 < 0x80"
    using u v by (simp add: word_less_nat_alt)
  with True show ?thesis by (simp add: asciiLower_def isAscii_def)
qed

lemma filter_not_dropWhile: "filter (\<lambda>c. \<not> P c) (dropWhile P s) = filter (\<lambda>c. \<not> P c) s"
  by (induction s) simp_all

lemma removeWhitespace_trim: "removeWhitespace (map asciiLower (trim s)) = removeWhitespace (map asciiLower s)"
proof -
  have f: "filter (\<lambda>c. \<not> isWhiteSpace c) (map asciiLower xs) =
           map asciiLower (filter (\<lambda>c. \<not> isWhiteSpace c) xs)" for xs
    by (simp add: filter_map o_def asciiLower_whitespace)
  have "filter (\<lambda>c. \<not> isWhiteSpace c) (trim s) = filter (\<lambda>c. \<not> isWhiteSpace c) s"
    unfolding trim_def
    by (simp only: rev_filter[symmetric] filter_not_dropWhile rev_rev_ident)
  then show ?thesis by (simp add: removeWhitespace_def f)
qed

lemma trim_ascii: "list_all isAscii s \<Longrightarrow> list_all isAscii (trim s)"
proof -
  assume a: "list_all isAscii s"
  have d: "set (dropWhile isWhiteSpace xs) \<subseteq> set xs" for xs :: jsstring
    by (auto dest: set_dropWhileD)
  have "set (trim s) \<subseteq> set (dropWhile isWhiteSpace s)"
    unfolding trim_def using d[of "rev (dropWhile isWhiteSpace s)"] by simp
  from this d[of s] have "set (trim s) \<subseteq> set s" by (rule order.trans)
  with a show ?thesis by (auto simp: list_all_iff)
qed

text \<open>
  Claim C6, amended. Given what the Unicode standard says of the two builtins on ASCII
  strings (the first two hypotheses of C5), \<open>normalizeString\<close> maps every ASCII string to
  the string with its white space removed and its capitals replaced by small letters,
  and normalising that again changes nothing.
\<close>

theorem normalizeString_idempotent_ascii:
  assumes nfkc_ascii: "\<And>s. list_all isAscii s \<Longrightarrow> nfkc s = s"
      and lower_ascii: "\<And>s. list_all isAscii s \<Longrightarrow> toLowerCase s = map asciiLower s"
      and ascii: "list_all isAscii s"
  shows "normalizeString nfkc toLowerCase (Some s) = removeWhitespace (map asciiLower s)
       \<and> normalizeString nfkc toLowerCase
             (Some (normalizeString nfkc toLowerCase (Some s))) =
           normalizeString nfkc toLowerCase (Some s)"
proof -
  define t where "t = removeWhitespace (map asciiLower s)"
  have form: "normalizeString nfkc toLowerCase (Some u) = removeWhitespace (map asciiLower u)"
    if u: "list_all isAscii u" for u
  proof (cases "u = []")
    case True
    then show ?thesis by (simp add: normalizeString_def removeWhitespace_def)
  next
    case False
    have tu: "list_all isAscii (trim u)" using u by (rule trim_ascii)
    have "normalizeString nfkc toLowerCase (Some u) =
          removeWhitespace (toLowerCase (nfkc (trim u)))"
      using False by (simp add: normalizeString_def)
    also have "\<dots> = removeWhitespace (map asciiLower (trim u))"
      by (simp only: nfkc_ascii[OF tu] lower_ascii[OF tu])
    also have "\<dots> = removeWhitespace (map asciiLower u)"
      by (rule removeWhitespace_trim)
    finally show ?thesis .
  qed
  have s: "normalizeString nfkc toLowerCase (Some s) = t"
    unfolding t_def using ascii by (rule form)
  have ta: "list_all isAscii t"
    using ascii by (auto simp: t_def removeWhitespace_def list_all_iff asciiLower_ascii)
  have "removeWhitespace (map asciiLower t) = t"
    by (simp add: t_def removeWhitespace_def filter_map o_def asciiLower_whitespace
        asciiLower_idem)
  with form[OF ta] have "normalizeString nfkc toLowerCase (Some t) = t" by simp
  with s show ?thesis unfolding t_def by simp
qed

text \<open>
  The amended C6 at an ASCII string with white space and capitals, with the fragment
  model of the builtins.
\<close>

theorem normalizeString_idempotent_ascii_witness:
  "list_all isAscii (ascii ''  New York '')
   \<and> normalizeString nfkc_frag toLowerCase_frag (Some (ascii ''  New York '')) = ascii ''newyork''
   \<and> normalizeString nfkc_frag toLowerCase_frag
        (Some (normalizeString nfkc_frag toLowerCase_frag (Some (ascii ''  New York '')))) =
       normalizeString nfkc_frag toLowerCase_frag (Some (ascii ''  New York ''))"
proof -
  have h1: "\<And>s. list_all isAscii s \<Longrightarrow> nfkc_frag s = s" by (rule nfkc_frag_ascii)
  have h2: "\<And>s. list_all isAscii s \<Longrightarrow> toLowerCase_frag s = map asciiLower s"
    by (simp add: toLowerCase_frag_def)
  have h3: "list_all isAscii (ascii ''  New York '')"
    by (simp add: ascii_def isAscii_def)
  have v: "removeWhitespace (map asciiLower (ascii ''  New York '')) = ascii ''newyork''"
    by (simp add: ascii_def isWhiteSpace_def asciiLower_def removeWhitespace_def)
  note r = normalizeString_idempotent_ascii[of nfkc_frag toLowerCase_frag, OF h1 h2 h3]
  have a: "normalizeString nfkc_frag toLowerCase_frag (Some (ascii ''  New York '')) =
           ascii ''newyork''"
    using r[THEN conjunct1] unfolding v .
  from h3 a r[THEN conjunct2] show ?thesis by (intro conjI)
qed

section \<open>Properties of shuffling and of deck selection\<close>

lemma bitLength_bounds:
  "0 < n \<Longrightarrow> 2 ^ (bitLength n - 1) \<le> n \<and> n < 2 ^ bitLength n"
proof (induction n rule: bitLength.induct)
  case (1 n)
  show ?case
  proof (cases "n div 2 = 0")
    case True
    with 1(2) have "n = 1" by (simp add: div_eq_0_iff)
    then show ?thesis by (simp add: bitLength.simps)
  next
    case False
    then have pos: "0 < n div 2" by simp
    from 1(1)[OF _ pos] 1(2)
    have ih: "2 ^ (bitLength (n div 2) - 1) \<le> n div 2" "n div 2 < 2 ^ bitLength (n div 2)"
      by simp_all
    have bl: "bitLength n = Suc (bitLength (n div 2))"
      using 1(2) by (subst bitLength.simps) simp
    have b1: "0 < bitLength (n div 2)"
      using pos by (subst bitLength.simps) simp
    have "(2::nat) ^ bitLength (n div 2) = 2 * 2 ^ (bitLength (n div 2) - 1)"
      using b1 by (cases "bitLength (n div 2)") simp_all
    moreover have d: "2 * (n div 2) \<le> n" "n < 2 * (n div 2) + 2" by presburger+
    ultimately have lo: "2 ^ bitLength (n div 2) \<le> n" using ih(1) by linarith
    from ih(2) d have hi: "n < 2 * 2 ^ bitLength (n div 2)" by linarith
    from lo hi show ?thesis by (simp add: bl)
  qed
qed

lemma roundHalfEven_near:
  assumes "0 < s"
  shows "roundHalfEven M s * 2 ^ s \<le> M + 2 ^ (s - 1)"
    and "M \<le> roundHalfEven M s * 2 ^ s + 2 ^ (s - 1)"
proof -
  define q where "q = M div 2 ^ s"
  define rest where "rest = M mod 2 ^ s"
  define half :: nat where "half = 2 ^ (s - 1)"
  have two: "(2::nat) ^ s = 2 * half"
    using assms by (cases s) (simp_all add: half_def)
  have M: "M = q * (2 * half) + rest"
    unfolding q_def rest_def two[symmetric] by (rule div_mult_mod_eq[symmetric])
  have r: "rest < 2 * half"
    unfolding rest_def two[symmetric] by simp
  have cases: "roundHalfEven M s = q \<and> rest \<le> half \<or> roundHalfEven M s = q + 1 \<and> half \<le> rest"
    unfolding roundHalfEven_def Let_def q_def[symmetric] rest_def[symmetric] half_def[symmetric]
    by auto
  show "roundHalfEven M s * 2 ^ s \<le> M + 2 ^ (s - 1)"
    unfolding two half_def[symmetric] using cases M r by (auto simp: algebra_simps)
  show "M \<le> roundHalfEven M s * 2 ^ s + 2 ^ (s - 1)"
    unfolding two half_def[symmetric] using cases M r by (auto simp: algebra_simps)
qed

lemma timesNat_rounded:
  assumes "53 < bitLength (mantissa r * n)"
  shows "timesNat r n =
           \<lparr>mantissa = roundHalfEven (mantissa r * n) (bitLength (mantissa r * n) - 53),
            exponent = exponent r + int (bitLength (mantissa r * n) - 53)\<rparr>"
    and "2 ^ (bitLength (mantissa r * n) - 53 - 1) * 2 ^ 53 \<le> mantissa r * n"
proof -
  let ?M = "mantissa r * n"
  let ?s = "bitLength ?M - 53"
  show "timesNat r n = \<lparr>mantissa = roundHalfEven ?M ?s, exponent = exponent r + int ?s\<rparr>"
    using assms by (simp add: timesNat_def Let_def)
  have pos: "0 < ?M"
  proof (rule ccontr)
    assume "\<not> 0 < ?M"
    then have "bitLength ?M = 0" by (subst bitLength.simps) simp
    with assms show False by simp
  qed
  have "(2::nat) ^ (?s - 1) * 2 ^ 53 = 2 ^ (?s - 1 + 53)"
    by (simp add: power_add)
  also have "?s - 1 + 53 = bitLength ?M - 1" using assms by simp
  also have "2 ^ (bitLength ?M - 1) \<le> ?M"
    using bitLength_bounds[OF pos] by simp
  finally show "2 ^ (?s - 1) * 2 ^ 53 \<le> ?M" .
qed

lemma timesNat_exact:
  assumes "bitLength (mantissa r * n) \<le> 53"
  shows "timesNat r n = \<lparr>mantissa = mantissa r * n, exponent = exponent r\<rparr>"
  using assms by (simp add: timesNat_def Let_def)

lemma randomIndex_le:
  assumes "isUnitDouble r"
  shows "randomIndex r i \<le> i"
proof -
  define m where "m = mantissa r"
  define k where "k = nat (- exponent r)"
  define n where "n = i + 1"
  define M where "M = m * n"
  have e: "exponent r = - int k" and k: "0 < k" and m: "m < 2 ^ k" and m53: "m < 2 ^ 53"
    using assms by (simp_all add: isUnitDouble_def k_def m_def)
  have "(m + 1) * n \<le> 2 ^ k * n"
    using m by (intro mult_right_mono) simp_all
  then have Mn: "M + n \<le> n * 2 ^ k"
    by (simp add: M_def algebra_simps)
  have n: "0 < n" by (simp add: n_def)
  have goal: "floorOf (timesNat r n) < n"
  proof (cases "bitLength M \<le> 53")
    case True
    then have t: "timesNat r n = \<lparr>mantissa = M, exponent = - int k\<rparr>"
      unfolding M_def m_def by (simp add: timesNat_exact e)
    have "M < n * 2 ^ k" using Mn n by linarith
    then have "M div 2 ^ k < n"
      by (simp add: less_mult_imp_div_less)
    then show ?thesis using k by (simp add: t floorOf_def)
  next
    case False
    then have big: "53 < bitLength (mantissa r * n)" by (simp add: M_def m_def)
    define s where "s = bitLength M - 53"
    define M' where "M' = roundHalfEven M s"
    have s: "0 < s" using False by (simp add: s_def)
    have t: "timesNat r n = \<lparr>mantissa = M', exponent = - int k + int s\<rparr>"
      using timesNat_rounded(1)[OF big] by (simp add: M'_def s_def M_def m_def e)
    have "2 ^ (s - 1) * 2 ^ 53 \<le> M"
      using timesNat_rounded(2)[OF big] by (simp add: s_def M_def m_def)
    also have "M < 2 ^ 53 * n"
      unfolding M_def using m53 n by simp
    finally have "(2::nat) ^ (s - 1) * 2 ^ 53 < n * 2 ^ 53" by (simp add: mult.commute)
    then have half: "2 ^ (s - 1) < n" by simp
    have "M' * 2 ^ s \<le> M + 2 ^ (s - 1)"
      unfolding M'_def by (rule roundHalfEven_near(1)[OF s])
    with half Mn have lt: "M' * 2 ^ s < n * 2 ^ k" by linarith
    show ?thesis
    proof (cases "k \<le> s")
      case True
      then have "(2::nat) ^ s = 2 ^ (s - k) * 2 ^ k"
        by (simp add: power_add[symmetric])
      with lt have "M' * 2 ^ (s - k) * 2 ^ k < n * 2 ^ k" by (simp add: mult.assoc)
      then have "M' * 2 ^ (s - k) < n" by simp
      moreover have "nat (- int k + int s) = s - k" using True by simp
      ultimately show ?thesis using True by (simp add: t floorOf_def)
    next
      case False
      then have "(2::nat) ^ k = 2 ^ (k - s) * 2 ^ s"
        by (simp add: power_add[symmetric])
      with lt have "M' * 2 ^ s < n * 2 ^ (k - s) * 2 ^ s" by (simp add: mult.assoc)
      then have "M' < n * 2 ^ (k - s)" by simp
      then have "M' div 2 ^ (k - s) < n"
        by (simp add: less_mult_imp_div_less)
      moreover have "nat (int k - int s) = k - s" using False by simp
      ultimately show ?thesis using False by (simp add: t floorOf_def)
    qed
  qed
  then show ?thesis by (simp add: randomIndex_def n_def)
qed

lemma valueOf_nonneg_exponent:
  "0 \<le> exponent d \<Longrightarrow> valueOf d = real (mantissa d * 2 ^ nat (exponent d))"
proof -
  assume a: "0 \<le> exponent d"
  then have "real_of_int (exponent d) = real (nat (exponent d))" by simp
  then have "(2::real) powr real_of_int (exponent d) = 2 ^ nat (exponent d)"
    by (simp only: powr_realpow[of 2, simplified])
  then show ?thesis by (simp add: valueOf_def)
qed

lemma valueOf_neg_exponent:
  "exponent d < 0 \<Longrightarrow> valueOf d = real (mantissa d) / 2 ^ nat (- exponent d)"
proof -
  assume a: "exponent d < 0"
  then have "real_of_int (exponent d) = - real (nat (- exponent d))" by simp
  then have "(2::real) powr real_of_int (exponent d) = 1 / 2 ^ nat (- exponent d)"
    by (simp only: powr_minus powr_realpow[of 2, simplified] inverse_eq_divide)
  then show ?thesis by (simp add: valueOf_def)
qed

lemma floorOf_valueOf:
  "real (floorOf d) \<le> valueOf d \<and> valueOf d < real (floorOf d) + 1"
proof (cases "0 \<le> exponent d")
  case True
  then show ?thesis by (simp add: valueOf_nonneg_exponent floorOf_def)
next
  case False
  define p :: nat where "p = 2 ^ nat (- exponent d)"
  have p: "0 < p" by (simp add: p_def)
  have v: "valueOf d = real (mantissa d) / real p"
    using False by (simp add: valueOf_neg_exponent p_def)
  have f: "floorOf d = mantissa d div p"
    using False by (simp add: floorOf_def p_def)
  have "mantissa d div p * p \<le> mantissa d" by simp
  then have "real (mantissa d div p * p) \<le> real (mantissa d)" by (rule of_nat_mono)
  then have lo: "real (mantissa d div p) \<le> real (mantissa d) / real p"
    using p by (simp add: pos_le_divide_eq)
  have "mantissa d < (mantissa d div p + 1) * p"
    using dividend_less_div_times[OF p, of "mantissa d"] by (simp add: algebra_simps)
  then have "real (mantissa d) < real ((mantissa d div p + 1) * p)" by (rule of_nat_less_iff[THEN iffD2])
  then have hi: "real (mantissa d) / real p < real (mantissa d div p) + 1"
    using p by (simp add: pos_divide_less_eq algebra_simps)
  from lo hi show ?thesis by (simp add: v f)
qed

lemma timesNat_close:
  "\<bar>valueOf (timesNat r n) - valueOf r * real n\<bar> \<le> valueOf r * real n / 2 ^ 53"
proof (cases "bitLength (mantissa r * n) \<le> 53")
  case True
  have "valueOf (timesNat r n) = valueOf r * real n"
    by (simp add: timesNat_exact[OF True] valueOf_def)
  moreover have "0 \<le> valueOf r * real n" by (simp add: valueOf_def)
  ultimately show ?thesis by simp
next
  case False
  then have big: "53 < bitLength (mantissa r * n)" by simp
  define M where "M = mantissa r * n"
  define s where "s = bitLength M - 53"
  define M' where "M' = roundHalfEven M s"
  define w :: real where "w = 2 powr real_of_int (exponent r)"
  have w: "0 < w" by (simp add: w_def)
  have s: "0 < s" using big by (simp add: s_def M_def)
  have "real_of_int (exponent r + int s) = real_of_int (exponent r) + real s" by simp
  then have "(2::real) powr real_of_int (exponent r + int s) = w * 2 ^ s"
    by (simp only: powr_add powr_realpow[of 2, simplified] w_def)
  then have v1: "valueOf (timesNat r n) = real (M' * 2 ^ s) * w"
    using timesNat_rounded(1)[OF big] by (simp add: valueOf_def M'_def s_def M_def)
  have v2: "valueOf r * real n = real M * w"
    by (simp add: valueOf_def M_def w_def)
  have up: "M' * 2 ^ s \<le> M + 2 ^ (s - 1)" and dn: "M \<le> M' * 2 ^ s + 2 ^ (s - 1)"
    unfolding M'_def by (rule roundHalfEven_near[OF s])+
  have "real (M' * 2 ^ s) \<le> real (M + 2 ^ (s - 1))" using up by (rule of_nat_mono)
  moreover have "real M \<le> real (M' * 2 ^ s + 2 ^ (s - 1))" using dn by (rule of_nat_mono)
  ultimately have d: "\<bar>real (M' * 2 ^ s) - real M\<bar> \<le> 2 ^ (s - 1)" by simp
  have "2 ^ (s - 1) * 2 ^ 53 \<le> M"
    using timesNat_rounded(2)[OF big] by (simp add: s_def M_def)
  then have "real (2 ^ (s - 1) * 2 ^ 53) \<le> real M" by (rule of_nat_mono)
  then have h: "(2::real) ^ (s - 1) \<le> real M / 2 ^ 53"
    by (simp add: pos_le_divide_eq)
  have "\<bar>valueOf (timesNat r n) - valueOf r * real n\<bar> = \<bar>real (M' * 2 ^ s) - real M\<bar> * w"
    unfolding v1 v2 using w by (simp add: left_diff_distrib[symmetric] abs_mult)
  also have "\<dots> \<le> (real M / 2 ^ 53) * w"
    using d h w by (intro mult_right_mono) simp_all
  also have "\<dots> = valueOf r * real n / 2 ^ 53"
    unfolding v2 by simp
  finally show ?thesis .
qed

lemma bitLength_numeral:
  "bitLength (numeral k) = Suc (bitLength (numeral k div 2))"
  by (subst bitLength.simps) simp

lemma bitLength_0: "bitLength 0 = 0"
  by (subst bitLength.simps) simp

lemma bitLength_1: "bitLength (Suc 0) = 1"
  by (subst bitLength.simps) (simp add: bitLength_0)

lemmas randomIndex_eval =
  randomIndex_def timesNat_def floorOf_def roundHalfEven_def Let_def
  bitLength_numeral bitLength_0 bitLength_1

lemma ex23: "randomIndex \<lparr>mantissa = 6004799503160661, exponent = - 53\<rparr> 2 = 2"
  by (simp add: randomIndex_eval)

lemma idx07:
  "randomIndex \<lparr>mantissa = 6305039478318694, exponent = - 53\<rparr> 9 = 7"
  "randomIndex \<lparr>mantissa = 6305039478318694, exponent = - 53\<rparr> 8 = 6"
  "randomIndex \<lparr>mantissa = 6305039478318694, exponent = - 53\<rparr> 7 = 5"
  "randomIndex \<lparr>mantissa = 6305039478318694, exponent = - 53\<rparr> 6 = 4"
  "randomIndex \<lparr>mantissa = 6305039478318694, exponent = - 53\<rparr> 5 = 4"
  "randomIndex \<lparr>mantissa = 6305039478318694, exponent = - 53\<rparr> 4 = 3"
  "randomIndex \<lparr>mantissa = 6305039478318694, exponent = - 53\<rparr> 3 = 2"
  "randomIndex \<lparr>mantissa = 6305039478318694, exponent = - 53\<rparr> 2 = 2"
  "randomIndex \<lparr>mantissa = 6305039478318694, exponent = - 53\<rparr> (Suc 0) = 1"
  by (simp_all add: randomIndex_eval)

lemma exloop: "shuffleLoop (\<lambda>n. \<lparr>mantissa = 6305039478318694, exponent = - 53\<rparr>) 0 9
        [1, 2, 3, 4, 5, 6, 7, 8, 9, 10 :: nat] = [1, 2, 10, 3, 4, 9, 5, 6, 7, 8]"
  by (simp add: shuffleLoop.simps idx07 Let_def)

lemma exsh: "shuffleArray (\<lambda>n. \<lparr>mantissa = 6305039478318694, exponent = - 53\<rparr>)
        [1, 2, 3, 4, 5, 6, 7, 8, 9, 10 :: nat] = [1, 2, 10, 3, 4, 9, 5, 6, 7, 8]"
proof -
  have len: "length [1, 2, 3, 4, 5, 6, 7, 8, 9, 10 :: nat] - 1 = 9" by simp
  show ?thesis unfolding shuffleArray_def len by (rule exloop)
qed

lemma shuffleLoop_mset:
  "\<forall>n. isUnitDouble (random n) \<Longrightarrow> i < length arr \<or> i = 0 \<Longrightarrow>
   mset (shuffleLoop random n i arr) = mset arr"
proof (induction random n i arr rule: shuffleLoop.induct)
  case (1 random n i newArr)
  show ?case
  proof (cases "i > 0")
    case False
    then show ?thesis by (simp add: shuffleLoop.simps)
  next
    case True
    let ?j = "randomIndex (random n) i"
    from True 1(3) have i: "i < length newArr" by simp
    have j: "?j \<le> i" using 1(2) by (simp add: randomIndex_le)
    have sw: "mset (newArr[i := newArr ! ?j, ?j := newArr ! i]) = mset newArr"
      using i j by (simp add: mset_swap)
    have "mset (shuffleLoop random (n + 1) (i - 1) (newArr[i := newArr ! ?j, ?j := newArr ! i]))
          = mset (newArr[i := newArr ! ?j, ?j := newArr ! i])"
      using True i by (intro 1(1)[OF True refl 1(2)]) auto
    with sw True show ?thesis
      by (subst shuffleLoop.simps) (simp add: Let_def)
  qed
qed

lemma shuffleArray_mset:
  assumes "\<forall>n. isUnitDouble (random n)"
  shows "mset (shuffleArray random array) = mset array"
  unfolding shuffleArray_def
  by (rule shuffleLoop_mset[OF assms]) (cases array; simp)

lemma shuffleArray_Nil: "shuffleArray random [] = []"
  by (simp add: shuffleArray_def shuffleLoop.simps)

lemma set_js_slice: "set (js_slice xs a b) \<subseteq> set xs"
  unfolding js_slice_def Let_def
  by (meson set_take_subset set_drop_subset subset_trans)

lemma js_slice_Nil: "js_slice [] a b = []"
  by (simp add: js_slice_def Let_def)

lemma selectDeck_empty_source: "sourceCards st = [] \<Longrightarrow> selectDeck random newSettings st = []"
  by (simp add: selectDeck_def Let_def shuffleArray_Nil js_slice_Nil split: option.splits)

lemma isUnitDouble_value:
  assumes "isUnitDouble r"
  shows "0 \<le> valueOf r \<and> valueOf r < 1"
proof -
  have e: "exponent r < 0" and m: "mantissa r < 2 ^ nat (- exponent r)"
    using assms by (simp_all add: isUnitDouble_def)
  have "real (mantissa r) < real ((2::nat) ^ nat (- exponent r))"
    using m by (rule of_nat_less_iff[THEN iffD2])
  then have "valueOf r < 1"
    by (simp add: valueOf_neg_exponent[OF e])
  moreover have "0 \<le> valueOf r" by (simp add: valueOf_def)
  ultimately show ?thesis by simp
qed

text \<open>
  Claim C7. Whatever values the random source returns (binary64 numbers from 0 to 1, 1
  excluded), the shuffled array is a permutation of its input (the same multiset of
  elements, and of identifiers when the elements are cards), so a random selection
  without a limit holds every card of the source exactly once. The loop runs from the
  last index down to index 1; at index \<open>i\<close> it swaps the element with the one at
  \<open>randomIndex r i\<close>, which is at most \<open>i\<close>. That index is the integer part of the
  binary64 product of \<open>r\<close> and \<open>i + 1\<close>, and the binary64 product lies within the
  fraction \<open>1 / 2 ^ 53\<close> of the exact product: up to that rounding, \<open>j\<close> is chosen when
  \<open>r\<close> falls in the interval from \<open>j / (i + 1)\<close> to \<open>(j + 1) / (i + 1)\<close>, and these
  intervals have the same width for every \<open>j\<close> from 0 to \<open>i\<close>.
\<close>

theorem shuffleArray_permutation:
  assumes "\<forall>n. isUnitDouble (random n)"
  shows "mset (shuffleArray random array) = mset array
     \<and> mset (map card_id (shuffleArray random cards)) = mset (map card_id cards)
     \<and> mset (selectDeck random \<lparr>mode = m, order = RANDOM, limit = None, startIndex = k\<rparr> st) =
         mset (sourceCards st)
     \<and> shuffleArray random array = shuffleLoop random 0 (length array - 1) array
     \<and> shuffleLoop random n 0 array = array
     \<and> shuffleLoop random n (Suc i) array =
         shuffleLoop random (Suc n) i
           (array[Suc i := array ! randomIndex (random n) (Suc i),
                  randomIndex (random n) (Suc i) := array ! Suc i])
     \<and> randomIndex (random n) i \<le> i
     \<and> 0 \<le> valueOf (random n) \<and> valueOf (random n) < 1
     \<and> real (randomIndex (random n) i) \<le> valueOf (timesNat (random n) (i + 1))
     \<and> valueOf (timesNat (random n) (i + 1)) < real (randomIndex (random n) i) + 1
     \<and> \<bar>valueOf (timesNat (random n) (i + 1)) - valueOf (random n) * real (i + 1)\<bar>
         \<le> valueOf (random n) * real (i + 1) / 2 ^ 53"
proof -
  have u: "isUnitDouble (random n)" using assms by simp
  have a: "mset (shuffleArray random array) = mset array"
    by (rule shuffleArray_mset[OF assms])
  have b: "mset (map card_id (shuffleArray random cards)) = mset (map card_id cards)"
    using shuffleArray_mset[OF assms, of cards] by (metis mset_map)
  have c: "mset (selectDeck random \<lparr>mode = m, order = RANDOM, limit = None, startIndex = k\<rparr> st) =
         mset (sourceCards st)"
    by (simp add: selectDeck_def Let_def shuffleArray_mset[OF assms])
  have d: "shuffleArray random array = shuffleLoop random 0 (length array - 1) array"
    by (simp add: shuffleArray_def)
  have e: "shuffleLoop random n 0 array = array"
    by (simp add: shuffleLoop.simps)
  have f: "shuffleLoop random n (Suc i) array =
         shuffleLoop random (Suc n) i
           (array[Suc i := array ! randomIndex (random n) (Suc i),
                  randomIndex (random n) (Suc i) := array ! Suc i])"
    by (subst shuffleLoop.simps) (simp add: Let_def)
  have g: "randomIndex (random n) i \<le> i"
    using u by (rule randomIndex_le)
  note v = isUnitDouble_value[OF u]
  have h: "real (randomIndex (random n) i) \<le> valueOf (timesNat (random n) (i + 1))"
    and h': "valueOf (timesNat (random n) (i + 1)) < real (randomIndex (random n) i) + 1"
    using floorOf_valueOf[of "timesNat (random n) (i + 1)"] by (simp_all add: randomIndex_def)
  have w: "\<bar>valueOf (timesNat (random n) (i + 1)) - valueOf (random n) * real (i + 1)\<bar>
         \<le> valueOf (random n) * real (i + 1) / 2 ^ 53"
    by (rule timesNat_close)
  from a b c d e f g v h h' w show ?thesis by (intro conjI) simp_all
qed

text \<open>
  C7 at the random source that always returns the binary64 number nearest to 0.7, on a
  list of ten elements. At index 9 the binary64 product is 7 (the exact product, a
  little below 7, lies halfway between two binary64 numbers and is rounded to the even
  one), so the index chosen is 7; likewise the binary64 number nearest to two thirds
  gives index 2 at index 2.
\<close>

theorem shuffleArray_permutation_witness:
  "(\<forall>n::nat. isUnitDouble \<lparr>mantissa = 6305039478318694, exponent = - 53\<rparr>)
   \<and> shuffleArray (\<lambda>n. \<lparr>mantissa = 6305039478318694, exponent = - 53\<rparr>)
        [1, 2, 3, 4, 5, 6, 7, 8, 9, 10 :: nat] = [1, 2, 10, 3, 4, 9, 5, 6, 7, 8]
   \<and> mset (shuffleArray (\<lambda>n. \<lparr>mantissa = 6305039478318694, exponent = - 53\<rparr>)
        [1, 2, 3, 4, 5, 6, 7, 8, 9, 10 :: nat]) = mset [1, 2, 3, 4, 5, 6, 7, 8, 9, 10]
   \<and> randomIndex \<lparr>mantissa = 6305039478318694, exponent = - 53\<rparr> 9 = 7
   \<and> randomIndex \<lparr>mantissa = 6004799503160661, exponent = - 53\<rparr> 2 = 2"
proof -
  have h: "\<forall>n::nat. isUnitDouble ((\<lambda>n. \<lparr>mantissa = 6305039478318694, exponent = - 53\<rparr>) n)"
    by (simp add: isUnitDouble_def)
  note t = shuffleArray_permutation[OF h, of "[1, 2, 3, 4, 5, 6, 7, 8, 9, 10 :: nat]"]
  have a: "mset (shuffleArray (\<lambda>n. \<lparr>mantissa = 6305039478318694, exponent = - 53\<rparr>)
        [1, 2, 3, 4, 5, 6, 7, 8, 9, 10 :: nat]) = mset [1, 2, 3, 4, 5, 6, 7, 8, 9, 10]"
    by (rule t[THEN conjunct1])
  have u: "\<forall>n::nat. isUnitDouble \<lparr>mantissa = 6305039478318694, exponent = - 53\<rparr>"
    by (simp add: isUnitDouble_def)
  from u exsh a idx07(1) ex23 show ?thesis by (intro conjI)
qed

text \<open>
  Claim C8. When the selected deck is empty, \<open>handleStartGame\<close> leaves the screen, the
  play queue and the game results as they were and shows one alert; from the setup
  screen the only changes are the stored settings and the alert. An empty source always
  gives an empty deck, so a non-empty deck needs a non-empty source; only then does the
  screen become \<open>GAME\<close>.
\<close>

theorem empty_deck_does_not_start:
  "(selectDeck random newSettings st = [] \<longrightarrow>
      currentScreen (handleStartGame random newSettings st) = currentScreen st
      \<and> playQueue (handleStartGame random newSettings st) = playQueue st
      \<and> gameResults (handleStartGame random newSettings st) = gameResults st
      \<and> alerts (handleStartGame random newSettings st) = alerts st + 1
      \<and> fire (OnStart newSettings random) (st\<lparr>loading := False, currentScreen := SETUP\<rparr>) =
          st\<lparr>loading := False, currentScreen := SETUP, settings := newSettings,
             alerts := alerts st + 1\<rparr>)
   \<and> (sourceCards st = [] \<longrightarrow> selectDeck random newSettings st = [])
   \<and> (selectDeck random newSettings st \<noteq> [] \<longrightarrow>
        sourceCards st \<noteq> []
        \<and> currentScreen (handleStartGame random newSettings st) = GAME
        \<and> playQueue (handleStartGame random newSettings st) = selectDeck random newSettings st)"
proof -
  have sd: "selectDeck random newSettings (st\<lparr>loading := False, currentScreen := SETUP\<rparr>) =
            selectDeck random newSettings st"
    by (simp add: selectDeck_def sourceCards_def)
  have a: "selectDeck random newSettings st = [] \<longrightarrow>
      currentScreen (handleStartGame random newSettings st) = currentScreen st
      \<and> playQueue (handleStartGame random newSettings st) = playQueue st
      \<and> gameResults (handleStartGame random newSettings st) = gameResults st
      \<and> alerts (handleStartGame random newSettings st) = alerts st + 1
      \<and> fire (OnStart newSettings random) (st\<lparr>loading := False, currentScreen := SETUP\<rparr>) =
          st\<lparr>loading := False, currentScreen := SETUP, settings := newSettings,
             alerts := alerts st + 1\<rparr>"
    by (simp add: handleStartGame_def Let_def sd)
  have b: "sourceCards st = [] \<longrightarrow> selectDeck random newSettings st = []"
    by (simp add: selectDeck_empty_source)
  have c: "selectDeck random newSettings st \<noteq> [] \<longrightarrow>
        sourceCards st \<noteq> []
        \<and> currentScreen (handleStartGame random newSettings st) = GAME
        \<and> playQueue (handleStartGame random newSettings st) = selectDeck random newSettings st"
    using b by (auto simp: handleStartGame_def Let_def)
  from a b c show ?thesis by blast
qed

text \<open>
  C8 on the setup screen: at the state with no cards, and at a state with one card,
  where a start offset of 1 empties the deck and a start offset of 0 starts the game.
\<close>

theorem empty_deck_does_not_start_witness:
  "sourceCards (initial_state\<lparr>loading := False, currentScreen := SETUP\<rparr>) = []
   \<and> selectDeck (\<lambda>n. \<lparr>mantissa = 1, exponent = - 1\<rparr>) \<lparr>mode = FLASHCARD, order = RANDOM, limit = Some 10, startIndex = 0\<rparr>
        (initial_state\<lparr>loading := False, currentScreen := SETUP\<rparr>) = []
   \<and> currentScreen (handleStartGame (\<lambda>n. \<lparr>mantissa = 1, exponent = - 1\<rparr>)
        \<lparr>mode = FLASHCARD, order = RANDOM, limit = Some 10, startIndex = 0\<rparr>
        (initial_state\<lparr>loading := False, currentScreen := SETUP\<rparr>)) = SETUP
   \<and> playQueue (handleStartGame (\<lambda>n. \<lparr>mantissa = 1, exponent = - 1\<rparr>)
        \<lparr>mode = FLASHCARD, order = RANDOM, limit = Some 10, startIndex = 0\<rparr>
        (initial_state\<lparr>loading := False, currentScreen := SETUP\<rparr>)) = []
   \<and> selectDeck (\<lambda>n. \<lparr>mantissa = 1, exponent = - 1\<rparr>) \<lparr>mode = INPUT, order = SEQUENTIAL, limit = Some 10, startIndex = 1\<rparr>
        (initial_state\<lparr>allCards := [\<lparr>card_id = 1, question = ascii ''Apple'', answer = ascii ''x''\<rparr>],
           loading := False, currentScreen := SETUP\<rparr>) = []
   \<and> currentScreen (handleStartGame (\<lambda>n. \<lparr>mantissa = 1, exponent = - 1\<rparr>)
        \<lparr>mode = INPUT, order = SEQUENTIAL, limit = Some 10, startIndex = 1\<rparr>
        (initial_state\<lparr>allCards := [\<lparr>card_id = 1, question = ascii ''Apple'', answer = ascii ''x''\<rparr>],
           loading := False, currentScreen := SETUP\<rparr>)) = SETUP
   \<and> selectDeck (\<lambda>n. \<lparr>mantissa = 1, exponent = - 1\<rparr>) \<lparr>mode = INPUT, order = SEQUENTIAL, limit = Some 10, startIndex = 0\<rparr>
        (initial_state\<lparr>allCards := [\<lparr>card_id = 1, question = ascii ''Apple'', answer = ascii ''x''\<rparr>],
           loading := False, currentScreen := SETUP\<rparr>) =
       [\<lparr>card_id = 1, question = ascii ''Apple'', answer = ascii ''x''\<rparr>]
   \<and> currentScreen (handleStartGame (\<lambda>n. \<lparr>mantissa = 1, exponent = - 1\<rparr>)
        \<lparr>mode = INPUT, order = SEQUENTIAL, limit = Some 10, startIndex = 0\<rparr>
        (initial_state\<lparr>allCards := [\<lparr>card_id = 1, question = ascii ''Apple'', answer = ascii ''x''\<rparr>],
           loading := False, currentScreen := SETUP\<rparr>)) = GAME"
proof -
  let ?e = "initial_state\<lparr>loading := False, currentScreen := SETUP\<rparr>"
  let ?o = "initial_state\<lparr>allCards := [\<lparr>card_id = 1, question = ascii ''Apple'', answer = ascii ''x''\<rparr>],
           loading := False, currentScreen := SETUP\<rparr>"
  have s: "sourceCards ?e = []"
    by (simp add: sourceCards_def initial_state_def)
  have d1: "selectDeck (\<lambda>n. \<lparr>mantissa = 1, exponent = - 1\<rparr>) \<lparr>mode = INPUT, order = SEQUENTIAL, limit = Some 10, startIndex = 1\<rparr> ?o = []"
    by (simp add: selectDeck_def sourceCards_def initial_state_def js_slice_def Let_def)
  have d2: "selectDeck (\<lambda>n. \<lparr>mantissa = 1, exponent = - 1\<rparr>) \<lparr>mode = INPUT, order = SEQUENTIAL, limit = Some 10, startIndex = 0\<rparr> ?o =
       [\<lparr>card_id = 1, question = ascii ''Apple'', answer = ascii ''x''\<rparr>]"
    by (simp add: selectDeck_def sourceCards_def initial_state_def js_slice_def Let_def)
  have c: "currentScreen ?e = SETUP" "currentScreen ?o = SETUP" "playQueue ?e = []"
    by (simp_all add: initial_state_def)
  note t1 = empty_deck_does_not_start[of "\<lambda>n. \<lparr>mantissa = 1, exponent = - 1\<rparr>"
      "\<lparr>mode = FLASHCARD, order = RANDOM, limit = Some 10, startIndex = 0\<rparr>" ?e]
  note t2 = empty_deck_does_not_start[of "\<lambda>n. \<lparr>mantissa = 1, exponent = - 1\<rparr>"
      "\<lparr>mode = INPUT, order = SEQUENTIAL, limit = Some 10, startIndex = 1\<rparr>" ?o]
  note t3 = empty_deck_does_not_start[of "\<lambda>n. \<lparr>mantissa = 1, exponent = - 1\<rparr>"
      "\<lparr>mode = INPUT, order = SEQUENTIAL, limit = Some 10, startIndex = 0\<rparr>" ?o]
  have e1: "selectDeck (\<lambda>n. \<lparr>mantissa = 1, exponent = - 1\<rparr>)
      \<lparr>mode = FLASHCARD, order = RANDOM, limit = Some 10, startIndex = 0\<rparr> ?e = []"
    by (rule t1[THEN conjunct2, THEN conjunct1, THEN mp, OF s])
  note r1 = t1[THEN conjunct1, THEN mp, OF e1]
  have a1: "currentScreen (handleStartGame (\<lambda>n. \<lparr>mantissa = 1, exponent = - 1\<rparr>)
        \<lparr>mode = FLASHCARD, order = RANDOM, limit = Some 10, startIndex = 0\<rparr> ?e) = SETUP"
    using r1[THEN conjunct1] by (simp only: c)
  have a2: "playQueue (handleStartGame (\<lambda>n. \<lparr>mantissa = 1, exponent = - 1\<rparr>)
        \<lparr>mode = FLASHCARD, order = RANDOM, limit = Some 10, startIndex = 0\<rparr> ?e) = []"
    using r1[THEN conjunct2, THEN conjunct1] by (simp only: c)
  note r2 = t2[THEN conjunct1, THEN mp, OF d1]
  have a3: "currentScreen (handleStartGame (\<lambda>n. \<lparr>mantissa = 1, exponent = - 1\<rparr>)
        \<lparr>mode = INPUT, order = SEQUENTIAL, limit = Some 10, startIndex = 1\<rparr> ?o) = SETUP"
    using r2[THEN conjunct1] by (simp only: c)
  have ne: "selectDeck (\<lambda>n. \<lparr>mantissa = 1, exponent = - 1\<rparr>)
      \<lparr>mode = INPUT, order = SEQUENTIAL, limit = Some 10, startIndex = 0\<rparr> ?o \<noteq> []"
    by (simp only: d2) simp
  note r3 = t3[THEN conjunct2, THEN conjunct2, THEN mp, OF ne]
  have a4: "currentScreen (handleStartGame (\<lambda>n. \<lparr>mantissa = 1, exponent = - 1\<rparr>)
        \<lparr>mode = INPUT, order = SEQUENTIAL, limit = Some 10, startIndex = 0\<rparr> ?o) = GAME"
    by (rule r3[THEN conjunct2, THEN conjunct1])
  from s e1 a1 a2 d1 a3 d2 a4 show ?thesis by (intro conjI)
qed

section \<open>The invariant of the miss counts\<close>

lemma recordMisses_lookup:
  "recordMisses h res k =
     (if filter (\<lambda>r. \<not> isCorrect r \<and> cardId r = k) res = [] then h k
      else Some (missCount h k + length (filter (\<lambda>r. \<not> isCorrect r \<and> cardId r = k) res)))"
proof (induction res arbitrary: h)
  case Nil
  then show ?case by simp
next
  case (Cons r res)
  show ?case
  proof (cases "\<not> isCorrect r \<and> cardId r = k")
    case True
    then show ?thesis
      by (simp add: Cons.IH missCount_def)
  next
    case False
    then show ?thesis
      by (auto simp: Cons.IH missCount_def)
  qed
qed

lemma recordMisses_dom:
  "dom (recordMisses h res) \<subseteq> dom h \<union> cardId ` set res"
proof
  fix k assume "k \<in> dom (recordMisses h res)"
  then show "k \<in> dom h \<union> cardId ` set res"
    by (cases "filter (\<lambda>r. \<not> isCorrect r \<and> cardId r = k) res = []")
       (auto simp: recordMisses_lookup filter_empty_conv)
qed

lemma recordMisses_positive:
  "0 \<notin> ran h \<Longrightarrow> 0 \<notin> ran (recordMisses h res)"
proof
  assume h: "0 \<notin> ran h" and "0 \<in> ran (recordMisses h res)"
  then obtain k where k: "recordMisses h res k = Some 0" by (auto simp: ran_def)
  show False
  proof (cases "filter (\<lambda>r. \<not> isCorrect r \<and> cardId r = k) res = []")
    case True
    with k have "h k = Some 0" by (simp add: recordMisses_lookup)
    with h show False by (auto simp: ran_def)
  next
    case False
    with k show False by (simp add: recordMisses_lookup)
  qed
qed

lemma app_invI:
  "(loading s \<Longrightarrow> s = initial_state) \<Longrightarrow>
   dom (wrongHistory s) \<subseteq> card_id ` set (allCards s) \<Longrightarrow>
   0 \<notin> ran (wrongHistory s) \<Longrightarrow>
   set (playQueue s) \<subseteq> set (allCards s) \<Longrightarrow>
   (currentScreen s = GAME \<Longrightarrow> index s < length (playQueue s)) \<Longrightarrow>
   (currentScreen s = GAME \<Longrightarrow> cardId ` set (results s) \<subseteq> card_id ` set (playQueue s)) \<Longrightarrow>
   app_inv s"
  unfolding app_inv_def by blast

lemma app_invD:
  assumes "app_inv s"
  shows "dom (wrongHistory s) \<subseteq> card_id ` set (allCards s)"
    and "0 \<notin> ran (wrongHistory s)"
    and "set (playQueue s) \<subseteq> set (allCards s)"
    and "currentScreen s = GAME \<Longrightarrow> index s < length (playQueue s)"
    and "currentScreen s = GAME \<Longrightarrow> cardId ` set (results s) \<subseteq> card_id ` set (playQueue s)"
    and "loading s \<Longrightarrow> s = initial_state"
  using assms unfolding app_inv_def by blast+

lemma app_inv_initial: "app_inv initial_state"
  by (simp add: app_inv_def initial_state_def)

lemma parseCSV_Inr: "\<exists>data. parseCSV body = Inr data"
  using parseCSV_eq[of body] by blast

lemma app_inv_loaded: "app_inv (initial_state\<lparr>allCards := data, loading := False\<rparr>)"
  by (rule app_invI) (simp_all add: initial_state_def)

lemma app_inv_fetchCSV: "app_inv (fetchCSV response initial_state)"
proof -
  obtain d1 where d1: "parseCSV SAMPLE_CSV = Inr d1" using parseCSV_Inr by blast
  have s: "app_inv (loadSample initial_state)"
    by (simp add: loadSample_def d1 app_inv_loaded)
  show ?thesis
  proof (cases response)
    case None
    with s show ?thesis by (simp add: fetchCSV_def)
  next
    case (Some body)
    obtain d2 where d2: "parseCSV body = Inr d2" using parseCSV_Inr by blast
    with Some show ?thesis
      by (simp add: fetchCSV_def app_inv_loaded)
  qed
qed

lemma set_sourceCards: "set (sourceCards st) \<subseteq> set (allCards st)"
  by (auto simp: sourceCards_def)

lemma set_selectDeck:
  assumes "\<forall>n. isUnitDouble (random n)"
  shows "set (selectDeck random newSettings st) \<subseteq> set (allCards st)"
proof -
  have sh: "set (shuffleArray random (sourceCards st)) = set (sourceCards st)"
    using shuffleArray_mset[OF assms] by (rule mset_eq_setD)
  let ?d = "if order newSettings = RANDOM then shuffleArray random (sourceCards st)
            else if startIndex newSettings > 0
                 then js_slice (sourceCards st) (startIndex newSettings) None
                 else sourceCards st"
  have d: "set ?d \<subseteq> set (sourceCards st)"
    using sh set_js_slice[of "sourceCards st"] by auto
  have "set (selectDeck random newSettings st) \<subseteq> set ?d"
  proof (cases "limit newSettings")
    case None
    then show ?thesis by (simp add: selectDeck_def Let_def)
  next
    case (Some n)
    then have "selectDeck random newSettings st = js_slice ?d 0 (Some n)"
      by (simp add: selectDeck_def Let_def)
    then show ?thesis by (simp only: set_js_slice)
  qed
  with d set_sourceCards[of st] show ?thesis by blast
qed

lemma app_inv_handleStartGame:
  assumes "\<forall>n. isUnitDouble (random n)" "app_inv st" "\<not> loading st"
  shows "app_inv (handleStartGame random newSettings st)"
proof (cases "selectDeck random newSettings st = []")
  case True
  then have g: "handleStartGame random newSettings st =
                st\<lparr>settings := newSettings, alerts := alerts st + 1\<rparr>"
    by (simp add: handleStartGame_def Let_def)
  show ?thesis
    unfolding g
    by (rule app_invI)
       (simp_all add: assms(3) app_invD(1-3)[OF assms(2)] app_invD(4,5)[OF assms(2)])
next
  case False
  then have g: "handleStartGame random newSettings st =
                st\<lparr>settings := newSettings, playQueue := selectDeck random newSettings st,
                   gameResults := [], currentScreen := GAME, index := 0, results := []\<rparr>"
    by (simp add: handleStartGame_def Let_def)
  show ?thesis
    unfolding g
    by (rule app_invI)
       (simp_all add: assms(3) app_invD(1-2)[OF assms(2)] set_selectDeck[OF assms(1)] False)
qed

lemma goNext_more:
  "index st < length (playQueue st) - 1 \<Longrightarrow>
   goNext correct inputVal st =
     st\<lparr>index := index st + 1,
        results := results st @
          [\<lparr>cardId = card_id (playQueue st ! index st), isCorrect = correct,
            userAnswer = (if mode (settings st) = INPUT then Some inputVal else None)\<rparr>]\<rparr>"
  by (simp add: goNext_def Let_def)

lemma goNext_last:
  "\<not> index st < length (playQueue st) - 1 \<Longrightarrow>
   goNext correct inputVal st =
     handleGameFinish
       (results st @
          [\<lparr>cardId = card_id (playQueue st ! index st), isCorrect = correct,
            userAnswer = (if mode (settings st) = INPUT then Some inputVal else None)\<rparr>])
       (st\<lparr>results := results st @
          [\<lparr>cardId = card_id (playQueue st ! index st), isCorrect = correct,
            userAnswer = (if mode (settings st) = INPUT then Some inputVal else None)\<rparr>]\<rparr>)"
  by (simp add: goNext_def Let_def)

lemma app_inv_goNext:
  assumes "app_inv st" "\<not> loading st" "currentScreen st = GAME" "index st < length (playQueue st)"
  shows "app_inv (goNext correct inputVal st)"
proof -
  define r where "r = \<lparr>cardId = card_id (playQueue st ! index st), isCorrect = correct,
             userAnswer = (if mode (settings st) = INPUT then Some inputVal else None)\<rparr>"
  define res where "res = results st @ [r]"
  note d0 = app_invD(1)[OF assms(1)] and z0 = app_invD(2)[OF assms(1)]
    and pq = app_invD(3)[OF assms(1)] and r0 = app_invD(5)[OF assms(1,3)]
  have cin: "playQueue st ! index st \<in> set (playQueue st)" using assms(4) by simp
  have cr: "cardId r = card_id (playQueue st ! index st)" by (simp add: r_def)
  have "cardId r \<in> card_id ` set (playQueue st)"
    unfolding cr using cin by (rule imageI)
  with r0 have res: "cardId ` set res \<subseteq> card_id ` set (playQueue st)"
    by (simp add: res_def)
  have im: "card_id ` set (playQueue st) \<subseteq> card_id ` set (allCards st)"
    using pq by (rule image_mono)
  show ?thesis
  proof (cases "index st < length (playQueue st) - 1")
    case True
    have g: "goNext correct inputVal st = st\<lparr>index := index st + 1, results := res\<rparr>"
      unfolding res_def r_def by (rule goNext_more[OF True])
    from True have i: "Suc (index st) < length (playQueue st)" by linarith
    show ?thesis
      unfolding g
      by (rule app_invI) (simp_all add: assms(2) d0 z0 pq i res)
  next
    case False
    have g: "goNext correct inputVal st = handleGameFinish res (st\<lparr>results := res\<rparr>)"
      unfolding res_def r_def by (rule goNext_last[OF False])
    have "dom (wrongHistory st) \<union> cardId ` set res \<subseteq> card_id ` set (allCards st)"
      using d0 order.trans[OF res im] by simp
    with recordMisses_dom[of "wrongHistory st" res]
    have d: "dom (recordMisses (wrongHistory st) res) \<subseteq> card_id ` set (allCards st)"
      by (rule order.trans)
    have p: "0 \<notin> ran (recordMisses (wrongHistory st) res)"
      using z0 by (rule recordMisses_positive)
    show ?thesis
      unfolding g handleGameFinish_def
      by (rule app_invI) (simp_all add: assms(2) d p pq)
  qed
qed

lemma app_inv_screen:
  assumes "app_inv st" "\<not> loading st" "scr \<noteq> GAME"
  shows "app_inv (st\<lparr>currentScreen := scr\<rparr>)"
  by (rule app_invI) (simp_all add: assms(2,3) app_invD(1-3)[OF assms(1)])

lemma app_inv_setup:
  assumes "app_inv st" "\<not> loading st"
  shows "app_inv (st\<lparr>setupSource := src, currentScreen := SETUP\<rparr>)"
  by (rule app_invI) (simp_all add: assms(2) app_invD(1-3)[OF assms(1)])

lemma app_inv_fire:
  assumes "app_inv st" "admissible e"
  shows "app_inv (fire e st)"
proof (cases "loading st")
  case True
  have st: "st = initial_state" by (rule app_invD(6)[OF assms(1) True])
  have l: "loading initial_state" by (simp add: initial_state_def)
  have "app_inv (fire e initial_state)"
    by (cases e) (simp_all add: l app_inv_fetchCSV app_inv_initial)
  with st show ?thesis by simp
next
  case False
  show ?thesis
  proof (cases e)
    case (OnStart newSettings random)
    with assms False show ?thesis
      by (simp add: app_inv_handleStartGame)
  next
    case (GoNext correct inputVal)
    with assms False show ?thesis
      by (simp add: app_inv_goNext)
  qed (simp_all add: assms(1) False app_inv_screen app_inv_setup)
qed

lemma app_inv_run:
  "app_inv st \<Longrightarrow> list_all admissible es \<Longrightarrow> app_inv (run es st)"
  by (induction es arbitrary: st) (simp_all add: app_inv_fire)

text \<open>
  Claim C9. In every state the application reaches from its mount by admissible events,
  the keys of \<open>wrongHistory\<close> are identifiers of cards of \<open>allCards\<close> and no stored
  count is zero, so a card has no entry exactly when its miss count reads as zero; the
  play queue holds cards of \<open>allCards\<close>, and the results collected on the game screen
  are about cards of the play queue. \<open>handleGameFinish\<close> adds to the count of a card the
  number of incorrect results about that card, and leaves the other entries as they were.
\<close>

theorem wrongHistory_keys_invariant:
  assumes "list_all admissible evs"
  shows "dom (wrongHistory (run evs initial_state)) \<subseteq>
           card_id ` set (allCards (run evs initial_state))
     \<and> 0 \<notin> ran (wrongHistory (run evs initial_state))
     \<and> (missCount (wrongHistory (run evs initial_state)) k = 0) =
         (k \<notin> dom (wrongHistory (run evs initial_state)))
     \<and> set (playQueue (run evs initial_state)) \<subseteq> set (allCards (run evs initial_state))
     \<and> (currentScreen (run evs initial_state) = GAME \<longrightarrow>
          index (run evs initial_state) < length (playQueue (run evs initial_state))
          \<and> cardId ` set (results (run evs initial_state)) \<subseteq>
              card_id ` set (playQueue (run evs initial_state)))
     \<and> wrongHistory (handleGameFinish res st) k =
         (if filter (\<lambda>r. \<not> isCorrect r \<and> cardId r = k) res = [] then wrongHistory st k
          else Some (missCount (wrongHistory st) k +
                     length (filter (\<lambda>r. \<not> isCorrect r \<and> cardId r = k) res)))"
proof -
  let ?s = "run evs initial_state"
  have inv: "app_inv ?s"
    using app_inv_initial assms by (rule app_inv_run)
  note d = app_invD(1)[OF inv] and z = app_invD(2)[OF inv] and p = app_invD(3)[OF inv]
  have m: "(missCount (wrongHistory ?s) k = 0) = (k \<notin> dom (wrongHistory ?s))"
  proof (cases "wrongHistory ?s k")
    case None
    then show ?thesis by (simp add: missCount_def dom_def)
  next
    case (Some n)
    have "n \<noteq> 0"
    proof
      assume "n = 0"
      with Some have "0 \<in> ran (wrongHistory ?s)" by (auto simp: ran_def)
      with z show False by simp
    qed
    with Some show ?thesis by (simp add: missCount_def dom_def)
  qed
  have g: "currentScreen ?s = GAME \<longrightarrow>
          index ?s < length (playQueue ?s)
          \<and> cardId ` set (results ?s) \<subseteq> card_id ` set (playQueue ?s)"
    using app_invD(4,5)[OF inv] by simp
  have f: "wrongHistory (handleGameFinish res st) k =
         (if filter (\<lambda>r. \<not> isCorrect r \<and> cardId r = k) res = [] then wrongHistory st k
          else Some (missCount (wrongHistory st) k +
                     length (filter (\<lambda>r. \<not> isCorrect r \<and> cardId r = k) res)))"
    by (simp add: handleGameFinish_def recordMisses_lookup)
  from d z m p g f show ?thesis by simp
qed

lemma w_parse:
  "parseCSV (ascii ''Q,A'' @ [0x0A] @ ascii ''Apple,x'') =
     Inr [\<lparr>card_id = 1, question = ascii ''Apple'', answer = ascii ''x''\<rparr>]"
  by (simp add: parseCSV_def csvRows_def initScan_def ascii_def buildCards.simps
      trimmedField_def trim_def isWhiteSpace_def)

lemma w_step1:
  "fire (CsvLoaded (ascii ''Q,A'' @ [0x0A] @ ascii ''Apple,x'')) initial_state =
   initial_state\<lparr>allCards := [\<lparr>card_id = 1, question = ascii ''Apple'', answer = ascii ''x''\<rparr>],
     loading := False\<rparr>"
proof -
  have l: "loading initial_state" by (simp add: initial_state_def)
  show ?thesis
    by (simp only: fire.simps l if_True fetchCSV_def option.case w_parse sum.case)
qed

lemma w_step2:
  "fire OnStartAll (initial_state\<lparr>allCards := cs, loading := False\<rparr>) =
   initial_state\<lparr>allCards := cs, loading := False, currentScreen := SETUP\<rparr>"
  by (simp add: initial_state_def)

lemma w_step3:
  "fire (OnStart \<lparr>mode = FLASHCARD, order = SEQUENTIAL, limit = None, startIndex = 0\<rparr> random)
     (initial_state\<lparr>allCards := [c], loading := False, currentScreen := SETUP\<rparr>) =
   initial_state\<lparr>allCards := [c], loading := False, currentScreen := GAME, playQueue := [c]\<rparr>"
  by (simp add: initial_state_def handleStartGame_def selectDeck_def sourceCards_def Let_def)

lemma w_step4:
  "fire (GoNext False [])
     (initial_state\<lparr>allCards := [c], loading := False, currentScreen := GAME, playQueue := [c]\<rparr>) =
   initial_state\<lparr>allCards := [c], loading := False, currentScreen := RESULT,
     wrongHistory := [card_id c \<mapsto> Suc 0], playQueue := [c],
     gameResults := [\<lparr>cardId = card_id c, isCorrect = False, userAnswer = None\<rparr>],
     results := [\<lparr>cardId = card_id c, isCorrect = False, userAnswer = None\<rparr>]\<rparr>"
  by (simp add: initial_state_def goNext_def handleGameFinish_def missCount_def Let_def)

lemma w_run:
  "run [CsvLoaded (ascii ''Q,A'' @ [0x0A] @ ascii ''Apple,x''), OnStartAll,
        OnStart \<lparr>mode = FLASHCARD, order = SEQUENTIAL, limit = None, startIndex = 0\<rparr> (\<lambda>n. \<lparr>mantissa = 1, exponent = - 1\<rparr>),
        GoNext False []] initial_state =
   initial_state\<lparr>allCards := [\<lparr>card_id = 1, question = ascii ''Apple'', answer = ascii ''x''\<rparr>],
     loading := False, currentScreen := RESULT, wrongHistory := [1 \<mapsto> Suc 0],
     playQueue := [\<lparr>card_id = 1, question = ascii ''Apple'', answer = ascii ''x''\<rparr>],
     gameResults := [\<lparr>cardId = 1, isCorrect = False, userAnswer = None\<rparr>],
     results := [\<lparr>cardId = 1, isCorrect = False, userAnswer = None\<rparr>]\<rparr>"
  by (simp only: run.simps w_step1 w_step2 w_step3 w_step4 card.simps)

text \<open>
  C9 at a run: a text with one card is loaded, a sequential game over all cards is
  started, and the card is answered wrongly. The history then holds one miss for card 1.
\<close>

theorem wrongHistory_keys_invariant_witness:
  "list_all admissible
     [CsvLoaded (ascii ''Q,A'' @ [0x0A] @ ascii ''Apple,x''), OnStartAll,
      OnStart \<lparr>mode = FLASHCARD, order = SEQUENTIAL, limit = None, startIndex = 0\<rparr> (\<lambda>n. \<lparr>mantissa = 1, exponent = - 1\<rparr>),
      GoNext False []]
   \<and> wrongHistory (run
     [CsvLoaded (ascii ''Q,A'' @ [0x0A] @ ascii ''Apple,x''), OnStartAll,
      OnStart \<lparr>mode = FLASHCARD, order = SEQUENTIAL, limit = None, startIndex = 0\<rparr> (\<lambda>n. \<lparr>mantissa = 1, exponent = - 1\<rparr>),
      GoNext False []] initial_state) = [1 \<mapsto> Suc 0]
   \<and> map card_id (allCards (run
     [CsvLoaded (ascii ''Q,A'' @ [0x0A] @ ascii ''Apple,x''), OnStartAll,
      OnStart \<lparr>mode = FLASHCARD, order = SEQUENTIAL, limit = None, startIndex = 0\<rparr> (\<lambda>n. \<lparr>mantissa = 1, exponent = - 1\<rparr>),
      GoNext False []] initial_state)) = [1]
   \<and> dom [(1::nat) \<mapsto> Suc 0] \<subseteq> card_id ` set
        [\<lparr>card_id = 1, question = ascii ''Apple'', answer = ascii ''x''\<rparr>]
   \<and> 0 \<notin> ran [(1::nat) \<mapsto> Suc 0]"
proof -
  let ?evs = "[CsvLoaded (ascii ''Q,A'' @ [0x0A] @ ascii ''Apple,x''), OnStartAll,
      OnStart \<lparr>mode = FLASHCARD, order = SEQUENTIAL, limit = None, startIndex = 0\<rparr> (\<lambda>n. \<lparr>mantissa = 1, exponent = - 1\<rparr>),
      GoNext False []]"
  have a: "list_all admissible ?evs" by (simp add: isUnitDouble_def)
  have w: "wrongHistory (run ?evs initial_state) = [1 \<mapsto> Suc 0]"
    unfolding w_run by simp
  have c: "allCards (run ?evs initial_state) =
             [\<lparr>card_id = 1, question = ascii ''Apple'', answer = ascii ''x''\<rparr>]"
    unfolding w_run by simp
  from wrongHistory_keys_invariant[OF a, of 1] have
    "dom (wrongHistory (run ?evs initial_state)) \<subseteq> card_id ` set (allCards (run ?evs initial_state))"
    and "0 \<notin> ran (wrongHistory (run ?evs initial_state))"
    by blast+
  then have "dom [(1::nat) \<mapsto> Suc 0] \<subseteq> card_id ` set
        [\<lparr>card_id = 1, question = ascii ''Apple'', answer = ascii ''x''\<rparr>]"
    and "0 \<notin> ran [(1::nat) \<mapsto> Suc 0]"
    unfolding w c by blast+
  with a w c show ?thesis by simp
qed

section \<open>Further properties\<close>

text \<open>
  Outside quotes, a carriage return followed by a line feed ends the row once: the scan
  goes on as after the line feed alone.
\<close>

lemma crlf_single_terminator:
  "scanChars (st\<lparr>insideQuotes := False\<rparr>) (0x0D # 0x0A # rest) =
   scanChars (st\<lparr>insideQuotes := False\<rparr>) (0x0A # rest)"
  by (simp add: Let_def)

text \<open>
  Sequential selection with a start offset \<open>k\<close> and no limit drops the first \<open>k\<close> cards of
  the source and keeps the others in their order, \<open>length - k\<close> of them (none when \<open>k\<close>
  exceeds the length).
\<close>

theorem sequential_offset_drops:
  "0 \<le> k \<Longrightarrow>
   selectDeck random \<lparr>mode = m, order = SEQUENTIAL, limit = None, startIndex = k\<rparr> st =
     drop (nat k) (sourceCards st)
   \<and> int (length (selectDeck random \<lparr>mode = m, order = SEQUENTIAL, limit = None, startIndex = k\<rparr> st)) =
     max 0 (int (length (sourceCards st)) - k)"
  by (auto simp: selectDeck_def js_slice_def Let_def min_def max_def)

text \<open>
  The start offset 1 on a source of two cards keeps the second.
\<close>

theorem sequential_offset_drops_witness:
  "(0::int) \<le> 1
   \<and> selectDeck (\<lambda>n. \<lparr>mantissa = 0, exponent = - 1\<rparr>) \<lparr>mode = FLASHCARD, order = SEQUENTIAL, limit = None, startIndex = 1\<rparr>
        (initial_state\<lparr>allCards :=
           [\<lparr>card_id = 1, question = ascii ''Apple'', answer = ascii ''x''\<rparr>,
            \<lparr>card_id = 2, question = ascii ''Japan'', answer = ascii ''y''\<rparr>]\<rparr>) =
       [\<lparr>card_id = 2, question = ascii ''Japan'', answer = ascii ''y''\<rparr>]"
proof -
  have k: "(0::int) \<le> 1" by simp
  have s: "sourceCards (initial_state\<lparr>allCards :=
           [\<lparr>card_id = 1, question = ascii ''Apple'', answer = ascii ''x''\<rparr>,
            \<lparr>card_id = 2, question = ascii ''Japan'', answer = ascii ''y''\<rparr>]\<rparr>) =
           [\<lparr>card_id = 1, question = ascii ''Apple'', answer = ascii ''x''\<rparr>,
            \<lparr>card_id = 2, question = ascii ''Japan'', answer = ascii ''y''\<rparr>]"
    by (simp add: sourceCards_def initial_state_def)
  have "selectDeck (\<lambda>n. \<lparr>mantissa = 0, exponent = - 1\<rparr>) \<lparr>mode = FLASHCARD, order = SEQUENTIAL, limit = None, startIndex = 1\<rparr>
        (initial_state\<lparr>allCards :=
           [\<lparr>card_id = 1, question = ascii ''Apple'', answer = ascii ''x''\<rparr>,
            \<lparr>card_id = 2, question = ascii ''Japan'', answer = ascii ''y''\<rparr>]\<rparr>) =
        drop (nat 1) (sourceCards (initial_state\<lparr>allCards :=
           [\<lparr>card_id = 1, question = ascii ''Apple'', answer = ascii ''x''\<rparr>,
            \<lparr>card_id = 2, question = ascii ''Japan'', answer = ascii ''y''\<rparr>]\<rparr>))"
    by (rule sequential_offset_drops[OF k, THEN conjunct1])
  also have "\<dots> = [\<lparr>card_id = 2, question = ascii ''Japan'', answer = ascii ''y''\<rparr>]"
    unfolding s by simp
  finally show ?thesis using k by simp
qed

text \<open>
  The fallback text parses to ten records, numbered 1 to 10.
\<close>

lemma sample_ids: "map_sum id (map card_id) (parseCSV SAMPLE_CSV) = Inr [1, 2, 3, 4, 5, 6, 7, 8, 9, 10]"
  by code_simp

end
